theory Spec2Isabelle
  imports Main
begin

section \<open>Strings\<close>

text \<open>
  A Python \<open>str\<close> is a sequence of code points. It is modelled as a \<^typ>\<open>string\<close>, whose
  characters stand for the code points U+0000 to U+00FF: the German messages of the
  backend fit, and text beyond Latin-1 is outside the model.

  \<open>isspace\<close> is the whitespace that \<open>str.strip()\<close> removes and that \<open>\s\<close> matches in a
  \<open>str\<close> pattern: on this range the code points 9 to 13, 28 to 32, 133 and 160.
  \<open>isdecimal\<close> is what \<open>\d\<close> matches in a \<open>str\<close> pattern: on this range the digits
  \<open>0\<close> to \<open>9\<close> only.
\<close>

definition LF :: char where
  "LF = CHR 0x0A"

definition CR :: char where
  "CR = CHR 0x0D"

definition isspace :: "char \<Rightarrow> bool" where
  "isspace c =
     (let n = (of_char c :: nat)
      in (9 \<le> n \<and> n \<le> 13) \<or> (28 \<le> n \<and> n \<le> 32) \<or> n = 133 \<or> n = 160)"

definition isdecimal :: "char \<Rightarrow> bool" where
  "isdecimal c = (let n = (of_char c :: nat) in 48 \<le> n \<and> n \<le> 57)"

definition lstrip :: "string \<Rightarrow> string" where
  "lstrip s = dropWhile isspace s"

definition rstrip :: "string \<Rightarrow> string" where
  "rstrip s = rev (dropWhile isspace (rev s))"

text \<open>\<open>s.strip()\<close>: leading and trailing whitespace removed.\<close>

definition strip :: "string \<Rightarrow> string" where
  "strip s = rstrip (lstrip s)"

text \<open>\<open>s.endswith(suffix)\<close>, and \<open>s.endswith((a, b, c))\<close> with a tuple of suffixes.\<close>

definition endswith :: "string \<Rightarrow> string \<Rightarrow> bool" where
  "endswith s suf = (length suf \<le> length s \<and> drop (length s - length suf) s = suf)"

definition endswith_any :: "string \<Rightarrow> string list \<Rightarrow> bool" where
  "endswith_any s sufs = list_ex (endswith s) sufs"

section \<open>Transcript lines and the final assembly of \<open>transcribe_audio\<close>\<close>

text \<open>
  \<open>TranscriptLine\<close> of main.py, and the dictionaries with the keys \<open>speaker\<close> and
  \<open>text\<close> that transcribe.py builds.
\<close>

record transcript_line =
  speaker :: string
  text' :: string

text \<open>
  A segment of \<open>result["segments"]\<close> as \<open>whisperx.assign_word_speakers\<close> returns it:
  a dictionary read with \<open>segment.get("speaker", "UNKNOWN")\<close> and
  \<open>segment.get("text", "")\<close>, so either key may be missing.
\<close>

record segment =
  seg_speaker :: "string option"
  seg_text :: "string option"

definition get_speaker :: "segment \<Rightarrow> string" where
  "get_speaker seg = (case seg_speaker seg of None \<Rightarrow> ''UNKNOWN'' | Some s \<Rightarrow> s)"

definition get_text :: "segment \<Rightarrow> string" where
  "get_text seg = (case seg_text seg of None \<Rightarrow> [] | Some t \<Rightarrow> t)"

text \<open>
  The loop of transcribe.py, lines 134 to 144:
  \<^verbatim>\<open>
    transcript = []
    for segment in result["segments"]:
        speaker = segment.get("speaker", "UNKNOWN")
        text = segment.get("text", "").strip()
        if text:
            transcript.append({"speaker": speaker, "text": text})
    return transcript
  \<close>
  The second argument is the list \<open>transcript\<close> built so far.
\<close>

fun convert_segments :: "segment list \<Rightarrow> transcript_line list \<Rightarrow> transcript_line list" where
  "convert_segments [] transcript = transcript"
| "convert_segments (seg # segs) transcript =
     (let spk = get_speaker seg;
          txt = strip (get_text seg)
      in if txt \<noteq> []
         then convert_segments segs (transcript @ [\<lparr>speaker = spk, text' = txt\<rparr>])
         else convert_segments segs transcript)"

definition build_transcript :: "segment list \<Rightarrow> transcript_line list" where
  "build_transcript segs = convert_segments segs []"

section \<open>The parser of existing transcripts\<close>

text \<open>
  \<open>open(file_path, "r", encoding="utf-8")\<close> reads in universal-newlines mode:
  \<open>\r\n\<close> and a lone \<open>\r\<close> become \<open>\n\<close>. The argument is the decoded content of the
  file.
\<close>

fun universal_newlines :: "string \<Rightarrow> string" where
  "universal_newlines [] = []"
| "universal_newlines [c] = (if c = CR then [LF] else [c])"
| "universal_newlines (c # d # cs) =
     (if c = CR
      then (if d = LF then LF # universal_newlines cs else LF # universal_newlines (d # cs))
      else c # universal_newlines (d # cs))"

text \<open>
  \<open>for line in f\<close>: the lines, each with its closing \<open>\n\<close>; a last line without one is
  still a line, and nothing follows a final \<open>\n\<close>. The first argument is the line
  read so far.
\<close>

fun readlines :: "string \<Rightarrow> string \<Rightarrow> string list" where
  "readlines cur [] = (if cur = [] then [] else [cur])"
| "readlines cur (c # cs) =
     (if c = LF then (cur @ [c]) # readlines [] cs else readlines (cur @ [c]) cs)"

definition file_lines :: "string \<Rightarrow> string list" where
  "file_lines content = readlines [] (universal_newlines content)"

text \<open>
  \<open>re.match(r"\[SPEAKER_(\d+)\]:\s*(.+)", line)\<close>, as a backtracking matcher from the
  start of the line. \<open>backtrack lo n k\<close> tries the lengths \<open>n\<close>, \<open>n - 1\<close>, ... down to
  \<open>lo\<close> for a greedy repetition and takes the first for which the rest of the
  pattern \<open>k\<close> matches; \<open>greedy P lo\<close> is the repetition of a character class
  (\<open>+\<close> has \<open>lo = 1\<close>, \<open>*\<close> has \<open>lo = 0\<close>), handing the matched text and the remaining
  input to the rest of the pattern. The dot matches every character except \<open>\n\<close>.
\<close>

fun backtrack :: "nat \<Rightarrow> nat \<Rightarrow> (nat \<Rightarrow> 'a option) \<Rightarrow> 'a option" where
  "backtrack lo 0 k = (if lo = 0 then k 0 else None)"
| "backtrack lo (Suc n) k =
     (if Suc n < lo then None
      else (case k (Suc n) of Some r \<Rightarrow> Some r | None \<Rightarrow> backtrack lo n k))"

definition greedy :: "(char \<Rightarrow> bool) \<Rightarrow> nat \<Rightarrow> string \<Rightarrow> (string \<Rightarrow> string \<Rightarrow> 'a option) \<Rightarrow> 'a option" where
  "greedy P lo s k = backtrack lo (length (takeWhile P s)) (\<lambda>i. k (take i s) (drop i s))"

definition literal :: "string \<Rightarrow> string \<Rightarrow> (string \<Rightarrow> 'a option) \<Rightarrow> 'a option" where
  "literal lit s k = (if take (length lit) s = lit then k (drop (length lit) s) else None)"

definition re_match_speaker :: "string \<Rightarrow> (string \<times> string) option" where
  "re_match_speaker line =
     literal ''[SPEAKER_'' line (\<lambda>s1.
       greedy isdecimal 1 s1 (\<lambda>group1 s2.
         literal '']:'' s2 (\<lambda>s3.
           greedy isspace 0 s3 (\<lambda>_ s4.
             greedy (\<lambda>c. c \<noteq> LF) 1 s4 (\<lambda>group2 _. Some (group1, group2))))))"

text \<open>
  The loop of \<open>parse_transcript_file\<close>, transcribe.py lines 156 to 171:
  \<^verbatim>\<open>
    for line in f:
        line = line.strip()
        if not line:
            continue
        match = re.match(pattern, line)
        if match:
            speaker_id = match.group(1)
            text = match.group(2).strip()
            if text:
                transcript.append({"speaker": f"SPEAKER_{speaker_id}", "text": text})
    return transcript
  \<close>
\<close>

fun parse_lines :: "string list \<Rightarrow> transcript_line list \<Rightarrow> transcript_line list" where
  "parse_lines [] transcript = transcript"
| "parse_lines (raw # rest) transcript =
     (let line = strip raw
      in if line = [] then parse_lines rest transcript
         else (case re_match_speaker line of
                 None \<Rightarrow> parse_lines rest transcript
               | Some (speaker_id, group2) \<Rightarrow>
                   (let txt = strip group2
                    in if txt \<noteq> []
                       then parse_lines rest
                              (transcript @ [\<lparr>speaker = ''SPEAKER_'' @ speaker_id, text' = txt\<rparr>])
                       else parse_lines rest transcript)))"

text \<open>What one pass through the body of that loop appends for the line \<open>raw\<close>, if anything.\<close>

definition line_entry :: "string \<Rightarrow> transcript_line option" where
  "line_entry raw =
     (let line = strip raw
      in if line = [] then None
         else (case re_match_speaker line of
                 None \<Rightarrow> None
               | Some (speaker_id, group2) \<Rightarrow>
                   (let txt = strip group2
                    in if txt \<noteq> []
                       then Some \<lparr>speaker = ''SPEAKER_'' @ speaker_id, text' = txt\<rparr>
                       else None)))"

definition parse_transcript_file :: "string \<Rightarrow> transcript_line list" where
  "parse_transcript_file content = parse_lines (file_lines content) []"

text \<open>
  What the parser decodes, line by line, for comparison with the loop: the line is
  trimmed first, and it is decoded when it then is \<open>[SPEAKER_\<close>, one or more digits,
  \<open>]:\<close> and a text that is not empty once trimmed; whitespace between the colon and
  the text is allowed and not required. Every other line gives nothing.
\<close>

definition strip_prefix :: "string \<Rightarrow> string \<Rightarrow> string option" where
  "strip_prefix p s = (if take (length p) s = p then Some (drop (length p) s) else None)"

definition decode_line :: "string \<Rightarrow> transcript_line option" where
  "decode_line raw =
     (case strip_prefix ''[SPEAKER_'' (strip raw) of
        None \<Rightarrow> None
      | Some r \<Rightarrow>
          (let digits = takeWhile isdecimal r
           in if digits = [] then None
              else (case strip_prefix '']:'' (dropWhile isdecimal r) of
                      None \<Rightarrow> None
                    | Some t \<Rightarrow>
                        if strip t = [] then None
                        else Some \<lparr>speaker = ''SPEAKER_'' @ digits, text' = strip t\<rparr>)))"

text \<open>
  The pattern as the specification writes it, \<open>[SPEAKER_<digits>]: <text>\<close>, read on
  the line as it stands: \<open>[SPEAKER_\<close> at the start of the line, one or more digits,
  \<open>]:\<close> followed by a blank, and a text that is not empty once trimmed.
\<close>

definition decode_line_as_specified :: "string \<Rightarrow> transcript_line option" where
  "decode_line_as_specified raw =
     (case strip_prefix ''[SPEAKER_'' raw of
        None \<Rightarrow> None
      | Some r \<Rightarrow>
          (let digits = takeWhile isdecimal r
           in if digits = [] then None
              else (case strip_prefix '']: '' (dropWhile isdecimal r) of
                      None \<Rightarrow> None
                    | Some t \<Rightarrow>
                        if strip t = [] then None
                        else Some \<lparr>speaker = ''SPEAKER_'' @ digits, text' = strip t\<rparr>)))"

section \<open>The pipeline of \<open>transcribe_audio\<close>\<close>

text \<open>
  The calls of \<open>transcribe_audio\<close> into WhisperX, in the order of the source:
  the two imports, \<open>whisperx.load_model\<close>, \<open>whisperx.load_audio\<close>,
  \<open>model.transcribe\<close>, \<open>whisperx.load_align_model\<close>, \<open>whisperx.align\<close>,
  \<open>whisperx.DiarizationPipeline\<close>, the call of the pipeline on the audio, and
  \<open>whisperx.assign_word_speakers\<close>.
\<close>

datatype ext_call =
  ImportWhisperx | LoadModel | LoadAudio | Transcribe | LoadAlignModel | Align
  | DiarizationPipeline | Diarize | AssignWordSpeakers

text \<open>
  An exception of class \<open>Exception\<close> with the text that \<open>str(e)\<close> gives. The class
  matters in one place: \<open>except ImportError\<close> around the imports.
\<close>

datatype exn = ImportError string | Exception string

fun str :: "exn \<Rightarrow> string" where
  "str (ImportError m) = m"
| "str (Exception m) = m"

text \<open>
  What is outside the repository, as the run of one job meets it: the configured
  \<open>WHISPER_MODEL\<close>, for every call into WhisperX whether it returns or raises, the
  environment variable \<open>HF_TOKEN\<close>, and \<open>result["segments"]\<close> as
  \<open>assign_word_speakers\<close> returns it.
\<close>

record whisperx_env =
  whisper_model :: string
  raises :: "ext_call \<Rightarrow> exn option"
  hf_token :: "string option"
  segments :: "segment list"

text \<open>
  What a run of \<open>transcribe_audio\<close> does besides returning: it reports progress
  through \<open>progress_callback(progress, message)\<close> and calls into WhisperX. A
  computation is the list of these events, in order, with a result or the exception
  that ended it.
\<close>

datatype event = Callback int string | Call ext_call

type_synonym 'a comp = "event list \<times> (exn + 'a)"

definition returns :: "'a \<Rightarrow> 'a comp" where
  "returns x = ([], Inr x)"

definition raise :: "exn \<Rightarrow> 'a comp" where
  "raise e = ([], Inl e)"

definition and_then :: "'a comp \<Rightarrow> ('a \<Rightarrow> 'b comp) \<Rightarrow> 'b comp" where
  "and_then m f =
     (case m of
        (evs, Inl e) \<Rightarrow> (evs, Inl e)
      | (evs, Inr x) \<Rightarrow> (case f x of (evs', r) \<Rightarrow> (evs @ evs', r)))"

definition progress_callback :: "int \<Rightarrow> string \<Rightarrow> unit comp" where
  "progress_callback p m = ([Callback p m], Inr ())"

definition call :: "whisperx_env \<Rightarrow> ext_call \<Rightarrow> unit comp" where
  "call env c = ([Call c], (case raises env c of None \<Rightarrow> Inr () | Some e \<Rightarrow> Inl e))"

text \<open>
  \<^verbatim>\<open>
    try:
        import whisperx
        import torch
    except ImportError:
        raise RuntimeError("WhisperX nicht installiert. ...")
  \<close>
\<close>

definition import_whisperx :: "whisperx_env \<Rightarrow> unit comp" where
  "import_whisperx env =
     ([Call ImportWhisperx],
      (case raises env ImportWhisperx of
         None \<Rightarrow> Inr ()
       | Some (ImportError _) \<Rightarrow>
           Inl (Exception
             ''WhisperX nicht installiert. Installieren Sie mit: uv sync --extra whisperx'')
       | Some (Exception m) \<Rightarrow> Inl (Exception m)))"

text \<open>\<open>if not hf_token: raise RuntimeError(...)\<close>: the variable is unset or empty.\<close>

definition check_hf_token :: "whisperx_env \<Rightarrow> unit comp" where
  "check_hf_token env =
     (if hf_token env = None \<or> hf_token env = Some []
      then raise (Exception
             (''HuggingFace Token nicht gesetzt. '' @
              ''Setzen Sie die HF_TOKEN Umgebungsvariable. '' @
              ''Token erstellen unter: https://huggingface.co/settings/tokens''))
      else returns ())"

text \<open>
  \<open>transcribe_audio(file_path, progress_callback)\<close>, with the callback that
  \<open>run_transcription\<close> always passes. The choice of the device and the values handed
  from one call to the next (model, audio, alignment) stay inside WhisperX and are
  not modelled; \<open>CHR 0xE4\<close> and \<open>CHR 0xFC\<close> are the umlauts of the messages.
\<close>

definition transcribe_audio :: "whisperx_env \<Rightarrow> transcript_line list comp" where
  "transcribe_audio env =
     and_then (import_whisperx env) (\<lambda>_.
     and_then (progress_callback 5 (''Lade WhisperX Modell ('' @ whisper_model env @ '')...'')) (\<lambda>_.
     and_then (call env LoadModel) (\<lambda>_.
     and_then (progress_callback 15 ''Lade Audio...'') (\<lambda>_.
     and_then (call env LoadAudio) (\<lambda>_.
     and_then (progress_callback 25 (''Transkription l'' @ [CHR 0xE4] @ ''uft...'')) (\<lambda>_.
     and_then (call env Transcribe) (\<lambda>_.
     and_then (progress_callback 50 (''Alignment l'' @ [CHR 0xE4] @ ''uft...'')) (\<lambda>_.
     and_then (call env LoadAlignModel) (\<lambda>_.
     and_then (call env Align) (\<lambda>_.
     and_then (progress_callback 65 (''Sprechererkennung l'' @ [CHR 0xE4] @ ''uft...'')) (\<lambda>_.
     and_then (check_hf_token env) (\<lambda>_.
     and_then (call env DiarizationPipeline) (\<lambda>_.
     and_then (call env Diarize) (\<lambda>_.
     and_then (progress_callback 85 (''Segmente werden zusammengef'' @ [CHR 0xFC] @ ''hrt...'')) (\<lambda>_.
     and_then (call env AssignWordSpeakers) (\<lambda>_.
     and_then (progress_callback 95 ''Transkript wird erstellt...'') (\<lambda>_.
     returns (build_transcript (segments env)))))))))))))))))))"

section \<open>Job records and the runner\<close>

text \<open>
  The status strings \<open>"pending"\<close>, \<open>"processing"\<close>, \<open>"completed"\<close> and \<open>"failed"\<close>, and
  the dictionary that \<open>start_transcription\<close> stores under the job identifier.
\<close>

datatype job_status = Pending | Processing | Completed | Failed

record job =
  status :: job_status
  progress :: int
  message :: string
  file_path :: string
  transcript :: "transcript_line list option"
  error :: "string option"

text \<open>The record of main.py lines 107 to 114.\<close>

definition new_job :: "string \<Rightarrow> job" where
  "new_job path =
     \<lparr>status = Pending, progress = 0, message = ''Audio hochgeladen'', file_path = path,
      transcript = None, error = None\<rparr>"

text \<open>
  One assignment \<open>jobs[job_id][key] = value\<close> of \<open>run_transcription\<close>, and the
  statements of a run: such an assignment, a call into WhisperX, or
  \<open>os.remove(file_path)\<close>.
\<close>

datatype assignment =
  SetStatus job_status | SetProgress int | SetMessage string
  | SetTranscript "transcript_line list" | SetError string

datatype action = Write assignment | Invoke ext_call | OsRemove string

fun apply_write :: "assignment \<Rightarrow> job \<Rightarrow> job" where
  "apply_write (SetStatus s) j = j\<lparr>status := s\<rparr>"
| "apply_write (SetProgress p) j = j\<lparr>progress := p\<rparr>"
| "apply_write (SetMessage m) j = j\<lparr>message := m\<rparr>"
| "apply_write (SetTranscript t) j = j\<lparr>transcript := Some t\<rparr>"
| "apply_write (SetError e) j = j\<lparr>error := Some e\<rparr>"

text \<open>
  The closure \<open>progress_callback\<close> of \<open>run_transcription\<close> makes two assignments, the
  progress first.
\<close>

fun event_actions :: "event \<Rightarrow> action list" where
  "event_actions (Callback p m) = [Write (SetProgress p), Write (SetMessage m)]"
| "event_actions (Call c) = [Invoke c]"

text \<open>
  \<open>run_transcription(job_id, file_path)\<close> as the statements it executes, in order,
  when the world behaves as \<open>env\<close> says: the three assignments of lines 179 to 181,
  the run of \<open>transcribe_audio\<close>, and then either lines 191 to 198 or, when an
  exception reached \<open>except Exception as e\<close>, lines 203 to 205. The job identifier
  is that of the task that executes them.
\<close>

definition run_transcription :: "whisperx_env \<Rightarrow> string \<Rightarrow> action list" where
  "run_transcription env path =
     [Write (SetStatus Processing), Write (SetProgress 10),
      Write (SetMessage ''Transkription wird vorbereitet...'')] @
     (case transcribe_audio env of
        (events, result) \<Rightarrow>
          concat (map event_actions events) @
          (case result of
             Inr lines \<Rightarrow>
               [Write (SetStatus Completed), Write (SetProgress 100),
                Write (SetMessage ''Transkription abgeschlossen''),
                Write (SetTranscript lines), OsRemove path]
           | Inl e \<Rightarrow>
               [Write (SetStatus Failed), Write (SetError (str e)),
                Write (SetMessage (''Fehler: '' @ str e))]))"

fun apply_action :: "job \<Rightarrow> action \<Rightarrow> job" where
  "apply_action j (Write w) = apply_write w j"
| "apply_action j (Invoke c) = j"
| "apply_action j (OsRemove p) = j"

text \<open>The record of a job after the first \<open>k\<close> statements of its run.\<close>

definition job_after :: "whisperx_env \<Rightarrow> string \<Rightarrow> nat \<Rightarrow> job" where
  "job_after env path k = foldl apply_action (new_job path) (take k (run_transcription env path))"

text \<open>
  Every value written to \<open>progress\<close> over the life of a job, in order: the 0 of
  the creation, then the assignments of the run. And the calls into WhisperX that a
  run makes.
\<close>

fun progress_of :: "action \<Rightarrow> int list" where
  "progress_of (Write (SetProgress p)) = [p]"
| "progress_of _ = []"

definition progress_writes :: "whisperx_env \<Rightarrow> string \<Rightarrow> int list" where
  "progress_writes env path =
     progress (new_job path) # concat (map progress_of (run_transcription env path))"

fun call_of :: "event \<Rightarrow> ext_call list" where
  "call_of (Call c) = [c]"
| "call_of _ = []"

definition calls_made :: "whisperx_env \<Rightarrow> ext_call list" where
  "calls_made env = concat (map call_of (fst (transcribe_audio env)))"

definition pipeline_calls :: "ext_call list" where
  "pipeline_calls =
     [ImportWhisperx, LoadModel, LoadAudio, Transcribe, LoadAlignModel, Align,
      DiarizationPipeline, Diarize, AssignWordSpeakers]"

fun callback_progress :: "event \<Rightarrow> int list" where
  "callback_progress (Callback p m) = [p]"
| "callback_progress _ = []"

definition reported :: "whisperx_env \<Rightarrow> int list" where
  "reported env = concat (map callback_progress (fst (transcribe_audio env)))"

section \<open>The server\<close>

text \<open>
  The response model \<open>TranscriptionJob\<close>; what a handler raises, an \<open>HTTPException\<close>
  with its status code and detail or another exception that it does not catch,
  with its text; and the uploaded file with its declared content type (which may
  be missing), its name and its bytes.
\<close>

record transcription_job =
  tj_job_id :: string
  tj_status :: job_status
  tj_progress :: int
  tj_message :: string
  tj_transcript :: "transcript_line list option"
  tj_error :: "string option"

datatype http_exception = HTTPException nat string | Unhandled string

record upload_file =
  content_type :: "string option"
  filename :: string
  upload_bytes :: string

text \<open>
  A background task: \<open>run_transcription\<close> with its two arguments, the world it will
  meet, and the number of statements it has executed.
\<close>

record task =
  task_job_id :: string
  task_file_path :: string
  task_env :: whisperx_env
  task_pc :: nat

text \<open>
  The state of the process: the dictionary \<open>jobs\<close>, the files under \<open>uploads/\<close>, the
  number of calls of \<open>uuid.uuid4()\<close> so far, and the background tasks in the order
  they were added.
\<close>

record server =
  jobs :: "string \<rightharpoonup> job"
  uploads :: "string \<rightharpoonup> string"
  uuid_calls :: nat
  background :: "task list"

definition init :: server where
  "init = \<lparr>jobs = Map.empty, uploads = Map.empty, uuid_calls = 0, background = []\<rparr>"

definition allowed_types :: "string list" where
  "allowed_types = [''audio/mpeg'', ''audio/wav'', ''audio/mp4'', ''audio/x-m4a'', ''audio/mp3'']"

definition type_allowed :: "upload_file \<Rightarrow> bool" where
  "type_allowed audio =
     (case content_type audio of None \<Rightarrow> False | Some t \<Rightarrow> t \<in> set allowed_types)"

text \<open>
  \<open>str(UPLOAD_DIR / name)\<close> with \<open>UPLOAD_DIR = Path("uploads")\<close>, on a POSIX system:
  the name is split at the slashes, empty components and \<open>.\<close> are dropped, and the
  rest is joined with single slashes after \<open>uploads\<close>; a name that starts with a
  slash is absolute and replaces the directory, keeping \<open>//\<close> when it starts with
  exactly two slashes.
\<close>

fun split_slash :: "string \<Rightarrow> string \<Rightarrow> string list" where
  "split_slash cur [] = [cur]"
| "split_slash cur (c # cs) =
     (if c = CHR ''/'' then cur # split_slash [] cs else split_slash (cur @ [c]) cs)"

definition path_parts :: "string \<Rightarrow> string list" where
  "path_parts name = filter (\<lambda>p. p \<noteq> [] \<and> p \<noteq> ''.'') (split_slash [] name)"

fun join_slash :: "string list \<Rightarrow> string" where
  "join_slash [] = []"
| "join_slash [p] = p"
| "join_slash (p # q # ps) = p @ ''/'' @ join_slash (q # ps)"

definition path_root :: "string \<Rightarrow> string" where
  "path_root name =
     (if take 2 name = ''//'' \<and> take 3 name \<noteq> ''///'' then ''//''
      else if take 1 name = ''/'' then ''/'' else [])"

definition upload_path :: "string \<Rightarrow> string" where
  "upload_path name =
     (if path_root name = [] then join_slash (''uploads'' # path_parts name)
      else path_root name @ join_slash (path_parts name))"

text \<open>
  What happens to lines 102 to 104, where the upload is written: it is saved; or
  \<open>open\<close> raises and there is no file; or reading the upload or writing it raises
  after the file was opened, and the file is left with what was written so far.
  The second argument is the text of the exception.
\<close>

datatype save_outcome = Saved | OpenRaises string | WriteRaises string string

text \<open>
  \<open>start_transcription\<close>, main.py lines 89 to 124. \<open>uuid4 n\<close> is the string of the
  call number \<open>n\<close> of \<open>uuid.uuid4()\<close>, \<open>save\<close> what happens when the upload is
  written, and \<open>env\<close> the world that the new task will meet. An exception of the
  write is not caught: the identifier is spent, and no job and no task are created.
\<close>

definition start_transcription ::
  "(nat \<Rightarrow> string) \<Rightarrow> upload_file \<Rightarrow> save_outcome \<Rightarrow> whisperx_env \<Rightarrow> server
     \<Rightarrow> (http_exception + transcription_job) \<times> server" where
  "start_transcription uuid4 audio save env s =
     (if \<not> type_allowed audio
         \<and> \<not> endswith_any (filename audio) [''.mp3'', ''.wav'', ''.m4a'']
      then (Inl (HTTPException 400
                   (''Ung'' @ [CHR 0xFC] @ ''ltiger Dateityp. Erlaubt: MP3, WAV, M4A'')), s)
      else
        (let job_id = uuid4 (uuid_calls s);
             path = upload_path (job_id @ ''_'' @ filename audio)
         in (case save of
               OpenRaises e \<Rightarrow>
                 (Inl (Unhandled e), s\<lparr>uuid_calls := Suc (uuid_calls s)\<rparr>)
             | WriteRaises written e \<Rightarrow>
                 (Inl (Unhandled e),
                  s\<lparr>uuid_calls := Suc (uuid_calls s),
                    uploads := (uploads s)(path \<mapsto> written)\<rparr>)
             | Saved \<Rightarrow>
                 (Inr \<lparr>tj_job_id = job_id, tj_status = Pending, tj_progress = 0,
                       tj_message = ''Transkription gestartet'',
                       tj_transcript = None, tj_error = None\<rparr>,
                  s\<lparr>uuid_calls := Suc (uuid_calls s),
                    uploads := (uploads s)(path \<mapsto> upload_bytes audio),
                    jobs := (jobs s)(job_id \<mapsto> new_job path),
                    background := background s @
                      [\<lparr>task_job_id = job_id, task_file_path = path, task_env = env,
                        task_pc = 0\<rparr>]\<rparr>))))"

text \<open>
  \<open>get_transcription_status\<close>, main.py lines 132 to 147. The transcript of the
  response is \<open>None\<close> when the stored one is \<open>None\<close> or the empty list
  (\<open>if job["transcript"]\<close>).
\<close>

definition get_transcription_status ::
  "string \<Rightarrow> server \<Rightarrow> (http_exception + transcription_job) \<times> server" where
  "get_transcription_status job_id s =
     (case jobs s job_id of
        None \<Rightarrow> (Inl (HTTPException 404 ''Job nicht gefunden''), s)
      | Some j \<Rightarrow>
          (Inr \<lparr>tj_job_id = job_id, tj_status = status j, tj_progress = progress j,
                tj_message = message j,
                tj_transcript = (case transcript j of
                                   None \<Rightarrow> None
                                 | Some [] \<Rightarrow> None
                                 | Some (l # ls) \<Rightarrow> Some (l # ls)),
                tj_error = error j\<rparr>, s))"

text \<open>
  One statement of the background task number \<open>n\<close>. An assignment to a job that is
  not in \<open>jobs\<close> raises \<open>KeyError\<close>, which the handler of \<open>run_transcription\<close> meets
  again at its own first assignment: the task ends and nothing is written.
\<close>

definition run_task :: "nat \<Rightarrow> server \<Rightarrow> server" where
  "run_task n s =
     (if n < length (background s)
      then
        (let t = background s ! n;
             acts = run_transcription (task_env t) (task_file_path t)
         in if task_pc t < length acts
            then
              (case acts ! task_pc t of
                 Write w \<Rightarrow>
                   (case jobs s (task_job_id t) of
                      None \<Rightarrow>
                        s\<lparr>background := (background s)[n := t\<lparr>task_pc := length acts\<rparr>]\<rparr>
                    | Some j \<Rightarrow>
                        s\<lparr>jobs := (jobs s)(task_job_id t \<mapsto> apply_write w j),
                          background := (background s)[n := t\<lparr>task_pc := Suc (task_pc t)\<rparr>]\<rparr>)
               | Invoke c \<Rightarrow>
                   s\<lparr>background := (background s)[n := t\<lparr>task_pc := Suc (task_pc t)\<rparr>]\<rparr>
               | OsRemove p \<Rightarrow>
                   s\<lparr>uploads := (uploads s)(p := None),
                     background := (background s)[n := t\<lparr>task_pc := Suc (task_pc t)\<rparr>]\<rparr>)
            else s)
      else s)"

text \<open>
  What happens to the process: a submission, a poll, or one statement of a
  background task. The runner is a plain function, which the framework runs on a
  worker thread, so requests are served between any two of its statements.
\<close>

datatype request =
  StartTranscription upload_file save_outcome whisperx_env | GetStatus string | RunTask nat

fun process :: "(nat \<Rightarrow> string) \<Rightarrow> server \<Rightarrow> request \<Rightarrow> server" where
  "process uuid4 s (StartTranscription audio save env) =
     snd (start_transcription uuid4 audio save env s)"
| "process uuid4 s (GetStatus job_id) = snd (get_transcription_status job_id s)"
| "process uuid4 s (RunTask n) = run_task n s"

definition serve :: "(nat \<Rightarrow> string) \<Rightarrow> request list \<Rightarrow> server \<Rightarrow> server" where
  "serve uuid4 reqs s = foldl (process uuid4) s reqs"

text \<open>
  The last assignment of the run of a task is done: among the statements that the
  task has not executed yet there is no assignment to the job record (only
  \<open>os.remove\<close> may remain). And the same for the task, or tasks, of a job.
\<close>

fun is_write :: "action \<Rightarrow> bool" where
  "is_write (Write w) = True"
| "is_write (Invoke c) = False"
| "is_write (OsRemove p) = False"

definition writes_done :: "task \<Rightarrow> bool" where
  "writes_done t =
     (\<not> list_ex is_write
          (drop (task_pc t) (run_transcription (task_env t) (task_file_path t))))"

definition assignments_done :: "server \<Rightarrow> string \<Rightarrow> bool" where
  "assignments_done s job_id =
     list_all writes_done (filter (\<lambda>t. task_job_id t = job_id) (background s))"

section \<open>Inputs for the examples\<close>

definition env_ok :: whisperx_env where
  "env_ok =
     \<lparr>whisper_model = ''large-v2'', raises = (\<lambda>_. None), hf_token = Some ''hf_token'',
      segments = [\<lparr>seg_speaker = Some ''SPEAKER_00'', seg_text = Some '' Guten Tag. ''\<rparr>]\<rparr>"

definition env_diarize_fails :: whisperx_env where
  "env_diarize_fails = env_ok\<lparr>raises := (\<lambda>_. None)(Diarize \<mapsto> Exception ''CUDA out of memory'')\<rparr>"

definition env_no_token :: whisperx_env where
  "env_no_token = env_ok\<lparr>hf_token := None\<rparr>"

definition upload_mp3 :: upload_file where
  "upload_mp3 = \<lparr>content_type = Some ''audio/mpeg'', filename = ''sitzung.mp3'', upload_bytes = ''ID3''\<rparr>"

definition upload_pdf :: upload_file where
  "upload_pdf =
     \<lparr>content_type = Some ''application/pdf'', filename = ''protokoll.pdf'', upload_bytes = ''%PDF''\<rparr>"

text \<open>A stand-in for \<open>uuid.uuid4()\<close> that never repeats: call \<open>n\<close> gives \<open>n + 1\<close> times \<open>u\<close>.\<close>

definition uuid_demo :: "nat \<Rightarrow> string" where
  "uuid_demo n = replicate (Suc n) (CHR ''u'')"

section \<open>Consistency of a job record\<close>

text \<open>
  \<open>settled\<close> is the invariant of the specification: a completed job has a transcript
  and no error, a failed job an error and no transcript, a pending or processing
  job neither. \<open>consistent\<close> is the part of it that does not ask for the result to be
  there yet.
\<close>

definition settled :: "job \<Rightarrow> bool" where
  "settled j =
     (case status j of
        Pending \<Rightarrow> transcript j = None \<and> error j = None
      | Processing \<Rightarrow> transcript j = None \<and> error j = None
      | Completed \<Rightarrow> transcript j \<noteq> None \<and> error j = None
      | Failed \<Rightarrow> transcript j = None \<and> error j \<noteq> None)"

definition consistent :: "job \<Rightarrow> bool" where
  "consistent j =
     (case status j of
        Pending \<Rightarrow> transcript j = None \<and> error j = None
      | Processing \<Rightarrow> transcript j = None \<and> error j = None
      | Completed \<Rightarrow> error j = None
      | Failed \<Rightarrow> transcript j = None)"

definition terminal :: "job_status \<Rightarrow> bool" where
  "terminal st = (st = Completed \<or> st = Failed)"

text \<open>The statements of a run before its last block: they leave the status at processing
  and touch neither the transcript nor the error.\<close>

fun quiet :: "action \<Rightarrow> bool" where
  "quiet (Write (SetStatus st)) = (st = Processing)"
| "quiet (Write (SetProgress p)) = True"
| "quiet (Write (SetMessage m)) = True"
| "quiet (Write (SetTranscript t)) = False"
| "quiet (Write (SetError e)) = False"
| "quiet (Invoke c) = True"
| "quiet (OsRemove p) = False"

definition in_progress :: "job \<Rightarrow> bool" where
  "in_progress j =
     ((status j = Pending \<or> status j = Processing) \<and> transcript j = None \<and> error j = None)"

text \<open>The last block of a run: lines 191 to 198, or lines 203 to 205 of main.py.\<close>

definition last_block :: "whisperx_env \<Rightarrow> string \<Rightarrow> action list" where
  "last_block env path =
     (case snd (transcribe_audio env) of
        Inr lines \<Rightarrow>
          [Write (SetStatus Completed), Write (SetProgress 100),
           Write (SetMessage ''Transkription abgeschlossen''),
           Write (SetTranscript lines), OsRemove path]
      | Inl e \<Rightarrow>
          [Write (SetStatus Failed), Write (SetError (str e)),
           Write (SetMessage (''Fehler: '' @ str e))])"

definition first_part :: "whisperx_env \<Rightarrow> action list" where
  "first_part env =
     [Write (SetStatus Processing), Write (SetProgress 10),
      Write (SetMessage ''Transkription wird vorbereitet...'')] @
     concat (map event_actions (fst (transcribe_audio env)))"

section \<open>The invariant of the server\<close>

text \<open>
  Every background task belongs to one job of its own, whose identifier came from an
  earlier call of \<open>uuid4\<close> and whose record is the one its run has produced so far;
  and every job has a task.
\<close>

definition task_ok :: "(nat \<Rightarrow> string) \<Rightarrow> server \<Rightarrow> task \<Rightarrow> bool" where
  "task_ok uuid4 s t =
     (jobs s (task_job_id t) = Some (job_after (task_env t) (task_file_path t) (task_pc t))
      \<and> (\<exists>i < uuid_calls s. task_job_id t = uuid4 i))"

definition server_inv :: "(nat \<Rightarrow> string) \<Rightarrow> server \<Rightarrow> bool" where
  "server_inv uuid4 s =
     ((\<forall>n < length (background s). task_ok uuid4 s (background s ! n))
      \<and> distinct (map task_job_id (background s))
      \<and> dom (jobs s) \<subseteq> set (map task_job_id (background s)))"

section \<open>The end of a run, and jobs that nothing touches any more\<close>

text \<open>
  The updates of a run, each with the statements that make it: the start of the run
  (three assignments), one per event of \<open>transcribe_audio\<close> (the two assignments of a
  checkpoint, or a call into WhisperX, which assigns nothing), and the last block.
  \<open>whole_states\<close> are the records between these updates, from the new record on:
  the records in which no update is half done.
\<close>

definition updates :: "whisperx_env \<Rightarrow> string \<Rightarrow> action list list" where
  "updates env path =
     [Write (SetStatus Processing), Write (SetProgress 10),
      Write (SetMessage ''Transkription wird vorbereitet...'')]
     # map event_actions (fst (transcribe_audio env)) @ [last_block env path]"

fun states_after :: "job \<Rightarrow> action list list \<Rightarrow> job list" where
  "states_after j [] = [j]"
| "states_after j (u # us) = j # states_after (foldl apply_action j u) us"

definition whole_states :: "whisperx_env \<Rightarrow> string \<Rightarrow> job list" where
  "whole_states env path = states_after (new_job path) (updates env path)"

text \<open>
  The record of a job when its run has ended, and when \<open>transcribe_audio\<close> has just
  returned or raised, before the last block.
\<close>

definition final_job :: "whisperx_env \<Rightarrow> string \<Rightarrow> job" where
  "final_job env path = job_after env path (length (run_transcription env path))"

definition job_before_last_block :: "whisperx_env \<Rightarrow> string \<Rightarrow> job" where
  "job_before_last_block env path = job_after env path (length (first_part env))"

definition token_missing :: "whisperx_env \<Rightarrow> bool" where
  "token_missing env = (hf_token env = None \<or> hf_token env = Some [])"

text \<open>
  The last assignment of the run of the job is done, and no later call of \<open>uuid4\<close>
  gives its identifier again.
\<close>

definition untouched :: "(nat \<Rightarrow> string) \<Rightarrow> server \<Rightarrow> string \<Rightarrow> bool" where
  "untouched uuid4 s job_id =
     (assignments_done s job_id \<and> (\<forall>i \<ge> uuid_calls s. uuid4 i \<noteq> job_id))"

section \<open>Properties of the string functions\<close>

lemma isspace_LF: "isspace LF"
  by (simp add: isspace_def LF_def)

lemma backtrack_top: "lo \<le> n \<Longrightarrow> k n = Some r \<Longrightarrow> backtrack lo n k = Some r"
  by (cases n) auto

lemma backtrack_none: "(\<And>i. i \<le> n \<Longrightarrow> k i = None) \<Longrightarrow> backtrack lo n k = None"
  by (induction n) auto

lemma backtrack_only_top:
  assumes "\<And>i. i < n \<Longrightarrow> k i = None"
  shows "backtrack lo n k = (if lo \<le> n then k n else None)"
proof (cases n)
  case 0
  then show ?thesis by simp
next
  case (Suc m)
  have "backtrack lo m k = None"
    using assms Suc by (intro backtrack_none) simp
  then show ?thesis
    using Suc by (auto split: option.splits)
qed

lemma lstrip_decomp: "s = takeWhile isspace s @ lstrip s"
  by (simp add: lstrip_def)

lemma rstrip_decomp: "s = rstrip s @ rev (takeWhile isspace (rev s))"
proof -
  have "rev s = takeWhile isspace (rev s) @ dropWhile isspace (rev s)" by simp
  then have "rev (rev s) = rev (takeWhile isspace (rev s) @ dropWhile isspace (rev s))" by simp
  then show ?thesis unfolding rstrip_def by (simp del: takeWhile_dropWhile_id)
qed

lemma strip_decomp: "\<exists>a b. s = a @ strip s @ b"
proof -
  have "s = takeWhile isspace s @ (strip s @ rev (takeWhile isspace (rev (lstrip s))))"
    using lstrip_decomp[of s] rstrip_decomp[of "lstrip s"] unfolding strip_def by simp
  then show ?thesis by blast
qed

lemma rstrip_last: "rstrip s \<noteq> [] \<Longrightarrow> \<not> isspace (last (rstrip s))"
  unfolding rstrip_def by (simp add: last_rev hd_dropWhile)

lemma strip_last: "strip s \<noteq> [] \<Longrightarrow> \<not> isspace (last (strip s))"
  unfolding strip_def by (rule rstrip_last)

lemma last_dropWhile_keep: "dropWhile P xs \<noteq> [] \<Longrightarrow> last (dropWhile P xs) = last xs"
  by (induction xs) (auto split: if_splits)

lemma rstrip_hd: "rstrip s \<noteq> [] \<Longrightarrow> hd (rstrip s) = hd s"
  unfolding rstrip_def
  using last_dropWhile_keep[of isspace "rev s"] by (simp add: hd_rev last_rev)

lemma strip_hd: "strip s \<noteq> [] \<Longrightarrow> \<not> isspace (hd (strip s))"
proof -
  assume a: "strip s \<noteq> []"
  then have "lstrip s \<noteq> []" unfolding strip_def rstrip_def by auto
  then have "\<not> isspace (hd (lstrip s))" unfolding lstrip_def by (rule hd_dropWhile)
  moreover have "hd (strip s) = hd (lstrip s)" using a unfolding strip_def by (rule rstrip_hd)
  ultimately show ?thesis by simp
qed

lemma strip_id: "s \<noteq> [] \<Longrightarrow> \<not> isspace (hd s) \<Longrightarrow> \<not> isspace (last s) \<Longrightarrow> strip s = s"
proof -
  assume a: "s \<noteq> []" "\<not> isspace (hd s)" "\<not> isspace (last s)"
  then have l: "lstrip s = s" unfolding lstrip_def by (cases s) auto
  have "dropWhile isspace (rev s) = rev s"
    using a by (cases "rev s") (auto simp: last_rev[symmetric] hd_rev)
  then show ?thesis unfolding strip_def l rstrip_def by simp
qed

lemma strip_no_LF:
  assumes "LF \<notin> set (butlast l)"
  shows "LF \<notin> set (strip l)"
proof
  assume "LF \<in> set (strip l)"
  then obtain x y where xy: "strip l = x @ LF # y" by (auto dest: split_list)
  have "y \<noteq> []"
  proof
    assume "y = []"
    then have "last (strip l) = LF" "strip l \<noteq> []" using xy by simp_all
    then show False using strip_last[of l] isspace_LF by simp
  qed
  obtain a b where "l = a @ strip l @ b" using strip_decomp by blast
  then have "l = (a @ x @ [LF]) @ (y @ b)" using xy by simp
  then have "butlast l = (a @ x @ [LF]) @ butlast (y @ b)"
    using \<open>y \<noteq> []\<close> by (metis Nil_is_append_conv butlast_append)
  then show False using assms by simp
qed

lemma readlines_no_LF:
  "LF \<notin> set cur \<Longrightarrow> \<forall>l \<in> set (readlines cur s). LF \<notin> set (butlast l)"
proof (induction s arbitrary: cur)
  case Nil
  then show ?case by (auto dest: in_set_butlastD)
next
  case (Cons c cs)
  show ?case
  proof (cases "c = LF")
    case True
    then show ?thesis using Cons.IH[of "[]"] Cons.prems by simp
  next
    case False
    then show ?thesis using Cons.IH[of "cur @ [c]"] Cons.prems by simp
  qed
qed

lemma file_lines_no_LF: "l \<in> set (file_lines content) \<Longrightarrow> LF \<notin> set (butlast l)"
  unfolding file_lines_def using readlines_no_LF[of "[]"] by simp

section \<open>What the pattern matches\<close>

lemma greedy_dot_all:
  "greedy (\<lambda>c. c \<noteq> LF) (Suc 0) s (\<lambda>g _. Some (d, g)) =
     (if takeWhile (\<lambda>c. c \<noteq> LF) s = [] then None else Some (d, takeWhile (\<lambda>c. c \<noteq> LF) s))"
proof (cases "takeWhile (\<lambda>c. c \<noteq> LF) s = []")
  case True
  then show ?thesis by (simp add: greedy_def)
next
  case False
  then have "Suc 0 \<le> length (takeWhile (\<lambda>c. c \<noteq> LF) s)"
    by (cases "takeWhile (\<lambda>c. c \<noteq> LF) s") simp_all
  then have "backtrack (Suc 0) (length (takeWhile (\<lambda>c. c \<noteq> LF) s)) (\<lambda>i. Some (d, take i s))
             = Some (d, take (length (takeWhile (\<lambda>c. c \<noteq> LF) s)) s)"
    by (rule backtrack_top) simp
  then show ?thesis using False by (simp add: greedy_def takeWhile_eq_take[symmetric])
qed

lemma greedy_space_then_dot:
  assumes "s3 = [] \<or> lstrip s3 \<noteq> []"
  shows "greedy isspace 0 s3 (\<lambda>_ s4. greedy (\<lambda>c. c \<noteq> LF) (Suc 0) s4 (\<lambda>g _. Some (d, g))) =
           (if s3 = [] then None else Some (d, takeWhile (\<lambda>c. c \<noteq> LF) (lstrip s3)))"
proof (cases "s3 = []")
  case True
  then show ?thesis by (simp add: greedy_def)
next
  case False
  then have ne: "lstrip s3 \<noteq> []" using assms by simp
  then have "\<not> isspace (hd (lstrip s3))" unfolding lstrip_def by (rule hd_dropWhile)
  then have "hd (lstrip s3) \<noteq> LF" using isspace_LF by auto
  then have tw: "takeWhile (\<lambda>c. c \<noteq> LF) (lstrip s3) \<noteq> []"
    using ne by (cases "lstrip s3") simp_all
  have "backtrack 0 (length (takeWhile isspace s3))
          (\<lambda>i. greedy (\<lambda>c. c \<noteq> LF) (Suc 0) (drop i s3) (\<lambda>g _. Some (d, g)))
        = Some (d, takeWhile (\<lambda>c. c \<noteq> LF) (lstrip s3))"
    by (rule backtrack_top) (simp_all add: greedy_dot_all tw[unfolded lstrip_def] lstrip_def dropWhile_eq_drop[symmetric])
  then show ?thesis using False by (simp add: greedy_def)
qed

lemma literal_digit_fails:
  assumes "s \<noteq> []" "isdecimal (hd s)"
  shows "literal '']:'' s k = None"
proof -
  have "hd s \<noteq> CHR '']''" using assms(2) by (auto simp: isdecimal_def)
  then show ?thesis using assms(1) by (cases s) (auto simp: literal_def)
qed

lemma greedy_digits_then_bracket:
  "greedy isdecimal (Suc 0) s1 (\<lambda>g s2. literal '']:'' s2 (k g)) =
     (if takeWhile isdecimal s1 = [] then None
      else literal '']:'' (dropWhile isdecimal s1) (k (takeWhile isdecimal s1)))"
proof -
  let ?n = "length (takeWhile isdecimal s1)"
  have "backtrack (Suc 0) ?n (\<lambda>i. literal '']:'' (drop i s1) (k (take i s1))) =
          (if Suc 0 \<le> ?n then literal '']:'' (drop ?n s1) (k (take ?n s1)) else None)"
  proof (rule backtrack_only_top)
    fix i assume i: "i < ?n"
    then have "i < length s1" using length_takeWhile_le[of isdecimal s1] by simp
    then have "drop i s1 \<noteq> []" "hd (drop i s1) = s1 ! i" by (simp_all add: hd_drop_conv_nth)
    moreover have "isdecimal (s1 ! i)"
      using i by (metis nth_mem set_takeWhileD takeWhile_nth)
    ultimately show "literal '']:'' (drop i s1) (k (take i s1)) = None"
      by (intro literal_digit_fails) simp_all
  qed
  moreover have "Suc 0 \<le> ?n \<longleftrightarrow> takeWhile isdecimal s1 \<noteq> []"
    by (cases "takeWhile isdecimal s1") simp_all
  ultimately show ?thesis
    by (simp add: greedy_def takeWhile_eq_take[symmetric] dropWhile_eq_drop[symmetric])
qed

lemma re_match_speaker_eq:
  "re_match_speaker line =
     (case strip_prefix ''[SPEAKER_'' line of
        None \<Rightarrow> None
      | Some s1 \<Rightarrow>
          if takeWhile isdecimal s1 = [] then None
          else (case strip_prefix '']:'' (dropWhile isdecimal s1) of
                  None \<Rightarrow> None
                | Some s3 \<Rightarrow>
                    greedy isspace 0 s3 (\<lambda>_ s4.
                      greedy (\<lambda>c. c \<noteq> LF) (Suc 0) s4 (\<lambda>g _. Some (takeWhile isdecimal s1, g)))))"
proof -
  have lit: "\<And>lit s (k :: string \<Rightarrow> (string \<times> string) option).
      literal lit s k = (case strip_prefix lit s of None \<Rightarrow> None | Some r \<Rightarrow> k r)"
    by (simp add: literal_def strip_prefix_def)
  show ?thesis
    unfolding re_match_speaker_def One_nat_def greedy_digits_then_bracket
    by (simp add: lit split: option.splits)
qed

lemma strip_prefix_Some: "strip_prefix p s = Some r \<Longrightarrow> s = p @ r"
  by (auto simp: strip_prefix_def split: if_splits) (metis append_take_drop_id)

lemma rstrip_id: "s \<noteq> [] \<Longrightarrow> \<not> isspace (last s) \<Longrightarrow> rstrip s = s"
  unfolding rstrip_def by (cases "rev s") (auto simp: last_rev[symmetric] simp del: last_rev)

lemma lstrip_nonempty: "s \<noteq> [] \<Longrightarrow> \<not> isspace (last s) \<Longrightarrow> lstrip s \<noteq> []"
  unfolding lstrip_def by (auto simp: dropWhile_eq_Nil_conv)

lemma lstrip_last: "lstrip s \<noteq> [] \<Longrightarrow> last (lstrip s) = last s"
  unfolding lstrip_def by (rule last_dropWhile_keep)

lemma strip_lstrip: "strip (lstrip s) = strip s"
  unfolding strip_def lstrip_def by simp

lemma strip_tail_of_stripped:
  assumes "s3 \<noteq> []" "\<not> isspace (last s3)"
  shows "strip s3 = lstrip s3" "lstrip s3 \<noteq> []"
proof -
  show ne: "lstrip s3 \<noteq> []" using assms by (rule lstrip_nonempty)
  then have "\<not> isspace (last (lstrip s3))" using assms(2) by (simp add: lstrip_last)
  then show "strip s3 = lstrip s3" unfolding strip_def using ne by (rule rstrip_id[rotated])
qed

lemma after_brackets:
  assumes s: "s \<noteq> []" "\<not> isspace (last s)" "LF \<notin> set s"
    and suf: "s = x @ s3"
  shows "(case greedy isspace 0 s3 (\<lambda>_ s4. greedy (\<lambda>c. c \<noteq> LF) (Suc 0) s4 (\<lambda>g _. Some (d, g))) of
            None \<Rightarrow> None
          | Some (speaker_id, group2) \<Rightarrow>
              (let txt = strip group2
               in if txt \<noteq> [] then Some \<lparr>speaker = ''SPEAKER_'' @ speaker_id, text' = txt\<rparr>
                  else None))
         = (if strip s3 = [] then None else Some \<lparr>speaker = ''SPEAKER_'' @ d, text' = strip s3\<rparr>)"
proof (cases "s3 = []")
  case True
  then show ?thesis by (simp add: greedy_space_then_dot strip_def lstrip_def rstrip_def)
next
  case False
  then have "last s3 = last s" using suf by simp
  then have nsp: "\<not> isspace (last s3)" using s(2) by simp
  have st: "strip s3 = lstrip s3" and ne: "lstrip s3 \<noteq> []"
    using strip_tail_of_stripped[OF False nsp] by simp_all
  have "set (lstrip s3) \<subseteq> set s"
    using suf set_dropWhileD[of _ isspace s3] unfolding lstrip_def by auto
  then have "LF \<notin> set (lstrip s3)" using s(3) by auto
  then have tw: "takeWhile (\<lambda>c. c \<noteq> LF) (lstrip s3) = lstrip s3"
    by (auto simp: takeWhile_eq_all_conv)
  have "greedy isspace 0 s3 (\<lambda>_ s4. greedy (\<lambda>c. c \<noteq> LF) (Suc 0) s4 (\<lambda>g _. Some (d, g)))
          = Some (d, lstrip s3)"
    using False ne by (simp add: greedy_space_then_dot tw)
  then show ?thesis using ne st by (simp add: strip_lstrip)
qed

lemma line_entry_decode:
  assumes "LF \<notin> set (butlast raw)"
  shows "line_entry raw = decode_line raw"
proof (cases "strip raw = []")
  case True
  then show ?thesis by (simp add: line_entry_def decode_line_def strip_prefix_def)
next
  case False
  let ?s = "strip raw"
  have s: "?s \<noteq> []" "\<not> isspace (last ?s)" "LF \<notin> set ?s"
    using False strip_last[of raw] strip_no_LF[OF assms] by simp_all
  show ?thesis
  proof (cases "strip_prefix ''[SPEAKER_'' ?s")
    case None
    then show ?thesis using False by (simp add: line_entry_def decode_line_def re_match_speaker_eq)
  next
    case (Some s1)
    note s1 = Some
    show ?thesis
    proof (cases "takeWhile isdecimal s1 = []")
      case True
      then show ?thesis using False s1
        by (simp add: line_entry_def decode_line_def re_match_speaker_eq)
    next
      case dig: False
      show ?thesis
      proof (cases "strip_prefix '']:'' (dropWhile isdecimal s1)")
        case None
        then show ?thesis using False s1 dig
          by (simp add: line_entry_def decode_line_def re_match_speaker_eq)
      next
        case (Some s3)
        have "?s = ''[SPEAKER_'' @ s1" using s1 by (rule strip_prefix_Some)
        moreover have "s1 = takeWhile isdecimal s1 @ dropWhile isdecimal s1" by simp
        moreover have "dropWhile isdecimal s1 = '']:'' @ s3" using Some by (rule strip_prefix_Some)
        ultimately have "?s = (''[SPEAKER_'' @ takeWhile isdecimal s1 @ '']:'') @ s3"
          by (metis append.assoc)
        note ab = after_brackets[OF s this, of "takeWhile isdecimal s1"]
        show ?thesis using False s1 dig Some ab
          by (simp add: line_entry_def decode_line_def re_match_speaker_eq Let_def)
      qed
    qed
  qed
qed

lemma parse_lines_map_filter:
  "\<forall>l \<in> set ls. LF \<notin> set (butlast l) \<Longrightarrow>
     parse_lines ls acc = acc @ List.map_filter decode_line ls"
proof (induction ls arbitrary: acc)
  case Nil
  then show ?case by (simp add: List.map_filter_simps)
next
  case (Cons raw rest)
  have d: "decode_line raw = line_entry raw"
    using Cons.prems by (simp add: line_entry_decode)
  have IH: "\<And>acc. parse_lines rest acc = acc @ List.map_filter decode_line rest"
    using Cons by simp
  have step: "parse_lines (raw # rest) acc =
      (case line_entry raw of None \<Rightarrow> parse_lines rest acc
       | Some e \<Rightarrow> parse_lines rest (acc @ [e]))"
    by (simp add: line_entry_def Let_def split: option.splits)
  show ?case
    unfolding step by (simp add: IH d List.map_filter_simps split: option.splits)
qed

lemma parse_transcript_file_decode:
  "parse_transcript_file content = List.map_filter decode_line (file_lines content)"
  unfolding parse_transcript_file_def
  using parse_lines_map_filter[of "file_lines content" "[]"] file_lines_no_LF by simp

section \<open>The pattern of the specification and the pattern of the code\<close>

lemma strip_parts:
  "s = takeWhile isspace s @ strip s @ rev (takeWhile isspace (rev (lstrip s)))"
  using lstrip_decomp[of s] rstrip_decomp[of "lstrip s"] unfolding strip_def by simp

lemma rstrip_append_spaces:
  assumes "m \<noteq> []" "\<not> isspace (last m)" "\<forall>c \<in> set b. isspace c"
  shows "rstrip (p @ m @ b) = p @ m"
proof -
  have "dropWhile isspace (rev b @ rev m @ rev p) = dropWhile isspace (rev m @ rev p)"
    using assms(3) by (intro dropWhile_append2) simp
  moreover have "dropWhile isspace (rev m @ rev p) = rev m @ rev p"
    using assms(1,2) by (cases "rev m") (auto simp: last_rev[symmetric] simp del: last_rev)
  ultimately show ?thesis by (simp add: rstrip_def)
qed

lemma lstrip_spaces_append:
  assumes "\<forall>c \<in> set a. isspace c" "m \<noteq> []" "\<not> isspace (hd m)"
  shows "lstrip (a @ m) = m"
proof -
  have "dropWhile isspace (a @ m) = dropWhile isspace m"
    using assms(1) by (intro dropWhile_append2) simp
  then show ?thesis using assms(2,3) by (cases m) (simp_all add: lstrip_def)
qed

lemma digits_then_bracket:
  "takeWhile isdecimal (takeWhile isdecimal r @ CHR '']'' # rest) = takeWhile isdecimal r
   \<and> dropWhile isdecimal (takeWhile isdecimal r @ CHR '']'' # rest) = CHR '']'' # rest"
proof -
  have nd: "\<not> isdecimal (CHR '']'')" by (simp add: isdecimal_def)
  have all: "\<forall>x \<in> set (takeWhile isdecimal r). isdecimal x" by (auto dest: set_takeWhileD)
  show ?thesis using nd all by (simp add: takeWhile_tail dropWhile_append3 dropWhile_eq_Nil_conv)
qed

lemma specified_line_is_decoded:
  assumes "decode_line_as_specified raw = Some l"
  shows "decode_line raw = Some l"
proof -
  obtain r where r: "strip_prefix ''[SPEAKER_'' raw = Some r"
    using assms by (auto simp: decode_line_as_specified_def split: option.splits)
  let ?d = "takeWhile isdecimal r"
  have d: "?d \<noteq> []"
    using assms r by (auto simp: decode_line_as_specified_def Let_def split: if_splits)
  obtain t where t: "strip_prefix '']: '' (dropWhile isdecimal r) = Some t"
    using assms r d by (auto simp: decode_line_as_specified_def Let_def split: option.splits)
  have m: "strip t \<noteq> []" and l: "l = \<lparr>speaker = ''SPEAKER_'' @ ?d, text' = strip t\<rparr>"
    using assms r d t by (auto simp: decode_line_as_specified_def Let_def split: if_splits)
  let ?a = "takeWhile isspace t"
  let ?b = "rev (takeWhile isspace (rev (lstrip t)))"
  have raw: "raw = ''[SPEAKER_'' @ r" using r by (rule strip_prefix_Some)
  have rr: "r = ?d @ '']: '' @ t"
    using strip_prefix_Some[OF t] takeWhile_dropWhile_id[of isdecimal r] by metis
  have tt: "t = ?a @ strip t @ ?b" by (rule strip_parts)
  have sp_b: "\<forall>c \<in> set ?b. isspace c" by (auto dest: set_takeWhileD)
  have sp_a: "\<forall>c \<in> set ?a. isspace c" by (auto dest: set_takeWhileD)
  have "raw = (''[SPEAKER_'' @ ?d @ '']: '' @ ?a) @ strip t @ ?b"
    using raw rr tt by (metis append.assoc)
  then have "rstrip raw = (''[SPEAKER_'' @ ?d @ '']: '' @ ?a) @ strip t"
    using rstrip_append_spaces[OF m strip_last[OF m] sp_b] by metis
  moreover have "lstrip raw = raw" using raw by (simp add: lstrip_def isspace_def)
  ultimately have sr: "strip raw = ''[SPEAKER_'' @ ?d @ '']: '' @ ?a @ strip t"
    by (simp add: strip_def)
  have p1: "strip_prefix ''[SPEAKER_'' (strip raw) = Some (?d @ CHR '']'' # '': '' @ ?a @ strip t)"
    by (simp add: sr strip_prefix_def)
  have "lstrip (CHR '' '' # ?a @ strip t) = lstrip (?a @ strip t)"
    by (simp add: lstrip_def isspace_def)
  then have "lstrip (CHR '' '' # ?a @ strip t) = strip t"
    using lstrip_spaces_append[OF sp_a m strip_hd[OF m]] by simp
  then have p3: "strip (CHR '' '' # ?a @ strip t) = strip t"
    unfolding strip_def[of "CHR '' '' # ?a @ strip t"]
    using rstrip_id[OF m strip_last[OF m]] by simp
  show ?thesis
    unfolding decode_line_def p1
    using d m by (simp add: digits_then_bracket strip_prefix_def p3 l Let_def)
qed

section \<open>The final assembly\<close>

lemma convert_segments_acc:
  "convert_segments segs acc =
     acc @ map (\<lambda>seg. \<lparr>speaker = get_speaker seg, text' = strip (get_text seg)\<rparr>)
            (filter (\<lambda>seg. strip (get_text seg) \<noteq> []) segs)"
  by (induction segs arbitrary: acc) (simp_all add: Let_def)

section \<open>The run of one job\<close>

lemma run_transcription_parts:
  "run_transcription env path = first_part env @ last_block env path"
  by (simp add: run_transcription_def first_part_def last_block_def split: prod.splits sum.splits)

lemma event_actions_quiet: "list_all quiet (concat (map event_actions evs))"
proof (induction evs)
  case Nil
  then show ?case by simp
next
  case (Cons ev evs)
  then show ?case by (cases ev) simp_all
qed

lemma first_part_quiet: "list_all quiet (first_part env)"
  by (simp add: first_part_def event_actions_quiet)

lemma quiet_step: "quiet a \<Longrightarrow> in_progress j \<Longrightarrow> in_progress (apply_action j a)"
  by (cases a rule: quiet.cases) (auto simp: in_progress_def)

lemma quiet_fold: "list_all quiet xs \<Longrightarrow> in_progress j \<Longrightarrow> in_progress (foldl apply_action j xs)"
  by (induction xs arbitrary: j) (simp_all add: quiet_step)

lemma in_progress_new_job: "in_progress (new_job path)"
  by (simp add: in_progress_def new_job_def)

lemma quiet_take: "list_all quiet xs \<Longrightarrow> list_all quiet (take k xs)"
  by (auto simp: list_all_iff dest: in_set_takeD)

lemma job_after_split:
  "job_after env path k =
     foldl apply_action (foldl apply_action (new_job path) (take k (first_part env)))
       (take (k - length (first_part env)) (last_block env path))"
  by (simp add: job_after_def run_transcription_parts)

lemma in_progress_before_last_block:
  "in_progress (foldl apply_action (new_job path) (take k (first_part env)))"
  by (intro quiet_fold quiet_take first_part_quiet in_progress_new_job)

lemma last_block_prefix_consistent:
  assumes "in_progress j"
  shows "consistent (foldl apply_action j (take m (last_block env path)))"
proof (cases "snd (transcribe_audio env)")
  case (Inl e)
  then show ?thesis using assms
    by (auto simp: last_block_def take_Cons' consistent_def in_progress_def split: job_status.splits)
next
  case (Inr lines)
  then show ?thesis using assms
    by (auto simp: last_block_def take_Cons' consistent_def in_progress_def split: job_status.splits)
qed

lemma job_after_consistent: "consistent (job_after env path k)"
  unfolding job_after_split
  by (rule last_block_prefix_consistent) (rule in_progress_before_last_block)

lemma last_block_settled:
  assumes "in_progress j"
  shows "settled (foldl apply_action j (last_block env path)) \<and>
         terminal (status (foldl apply_action j (last_block env path)))"
proof (cases "snd (transcribe_audio env)")
  case (Inl e)
  then show ?thesis using assms
    by (auto simp: last_block_def settled_def in_progress_def terminal_def split: job_status.splits)
next
  case (Inr lines)
  then show ?thesis using assms
    by (auto simp: last_block_def settled_def in_progress_def terminal_def split: job_status.splits)
qed

lemma job_after_settled:
  assumes "length (run_transcription env path) \<le> k"
  shows "settled (job_after env path k) \<and> terminal (status (job_after env path k))"
proof -
  have "take k (run_transcription env path) = first_part env @ last_block env path"
    using assms by (simp add: run_transcription_parts)
  then have "job_after env path k =
      foldl apply_action (foldl apply_action (new_job path) (first_part env)) (last_block env path)"
    by (simp add: job_after_def)
  moreover have "in_progress (foldl apply_action (new_job path) (first_part env))"
    by (intro quiet_fold first_part_quiet in_progress_new_job)
  ultimately show ?thesis using last_block_settled by simp
qed

lemma job_after_0: "job_after env path 0 = new_job path"
  by (simp add: job_after_def)

lemma job_after_Suc:
  "k < length (run_transcription env path) \<Longrightarrow>
     job_after env path (Suc k) = apply_action (job_after env path k) (run_transcription env path ! k)"
  by (simp add: job_after_def take_Suc_conv_app_nth)

section \<open>The invariant holds in every state of the server\<close>

lemma server_inv_init: "server_inv uuid4 init"
  by (simp add: server_inv_def init_def)

lemma server_inv_start:
  assumes inj: "inj uuid4" and inv: "server_inv uuid4 s"
  shows "server_inv uuid4 (snd (start_transcription uuid4 audio save env s))"
proof (cases "\<not> type_allowed audio \<and> \<not> endswith_any (filename audio) [''.mp3'', ''.wav'', ''.m4a'']")
  case True
  then show ?thesis using inv by (simp add: start_transcription_def)
next
  case False
  define jid where "jid = uuid4 (uuid_calls s)"
  define path where "path = upload_path (jid @ ''_'' @ filename audio)"
  have old: "\<And>n. n < length (background s) \<Longrightarrow> task_ok uuid4 s (background s ! n)"
    using inv by (simp add: server_inv_def)
  show ?thesis
  proof (cases save)
    case Saved
    define t where "t = \<lparr>task_job_id = jid, task_file_path = path, task_env = env, task_pc = 0\<rparr>"
    define s' where "s' = s\<lparr>uuid_calls := Suc (uuid_calls s),
                 uploads := (uploads s)(path \<mapsto> upload_bytes audio),
                 jobs := (jobs s)(jid \<mapsto> new_job path),
                 background := background s @ [t]\<rparr>"
    have s': "snd (start_transcription uuid4 audio save env s) = s'"
      using False Saved
      by (auto simp: start_transcription_def Let_def s'_def t_def path_def jid_def)
    have fresh: "task_job_id (background s ! n) \<noteq> jid" if lt: "n < length (background s)" for n
    proof -
      obtain i where "i < uuid_calls s" "task_job_id (background s ! n) = uuid4 i"
        using old[OF lt] by (auto simp: task_ok_def)
      then show ?thesis using inj by (auto simp: jid_def inj_def)
    qed
    have fresh_set: "jid \<notin> set (map task_job_id (background s))"
    proof
      assume "jid \<in> set (map task_job_id (background s))"
      then obtain m where "m < length (background s)" "task_job_id (background s ! m) = jid"
        by (auto simp: in_set_conv_nth)
      then show False using fresh[of m] by simp
    qed
    have "task_ok uuid4 s' (background s' ! n)" if "n < length (background s')" for n
    proof (cases "n < length (background s)")
      case True
      then have "background s' ! n = background s ! n" by (simp add: s'_def nth_append)
      moreover have "task_ok uuid4 s' (background s ! n)"
        using old[OF True] fresh[OF True] by (auto simp: task_ok_def s'_def less_Suc_eq)
      ultimately show ?thesis by simp
    next
      case False
      then have "background s' ! n = t" using that by (simp add: s'_def nth_append)
      moreover have "task_ok uuid4 s' t"
        by (auto simp: task_ok_def s'_def t_def job_after_0 jid_def)
      ultimately show ?thesis by simp
    qed
    moreover have "distinct (map task_job_id (background s'))"
      using inv fresh_set by (simp add: server_inv_def s'_def t_def)
    moreover have "dom (jobs s') \<subseteq> set (map task_job_id (background s'))"
      using inv by (auto simp: server_inv_def s'_def t_def)
    ultimately show ?thesis unfolding s' by (simp add: server_inv_def)
  next
    case (OpenRaises e)
    then have "snd (start_transcription uuid4 audio save env s) =
                 s\<lparr>uuid_calls := Suc (uuid_calls s)\<rparr>"
      using False by (auto simp: start_transcription_def Let_def)
    then show ?thesis
      using inv by (auto simp: server_inv_def task_ok_def less_Suc_eq)
  next
    case (WriteRaises written e)
    then have "snd (start_transcription uuid4 audio save env s) =
                 s\<lparr>uuid_calls := Suc (uuid_calls s), uploads := (uploads s)(path \<mapsto> written)\<rparr>"
      using False by (auto simp: start_transcription_def Let_def path_def jid_def)
    then show ?thesis
      using inv by (auto simp: server_inv_def task_ok_def less_Suc_eq)
  qed
qed

lemma server_inv_run_task:
  assumes inv: "server_inv uuid4 s"
  shows "server_inv uuid4 (run_task n s)"
proof (cases "n < length (background s) \<and>
    task_pc (background s ! n) <
      length (run_transcription (task_env (background s ! n)) (task_file_path (background s ! n)))")
  case False
  then show ?thesis using inv by (auto simp: run_task_def Let_def)
next
  case True
  define t where "t = background s ! n"
  define acts where "acts = run_transcription (task_env t) (task_file_path t)"
  define t' where "t' = t\<lparr>task_pc := Suc (task_pc t)\<rparr>"
  define j where "j = job_after (task_env t) (task_file_path t) (task_pc t)"
  have n: "n < length (background s)" and pc: "task_pc t < length acts"
    using True by (simp_all add: t_def acts_def)
  have oks: "\<And>m. m < length (background s) \<Longrightarrow> task_ok uuid4 s (background s ! m)"
    and dist: "distinct (map task_job_id (background s))"
    and dom: "dom (jobs s) \<subseteq> set (map task_job_id (background s))"
    using inv by (simp_all add: server_inv_def)
  have tj: "jobs s (task_job_id t) = Some j"
    using oks[OF n] by (simp add: task_ok_def t_def j_def)
  have other: "task_job_id (background s ! m) \<noteq> task_job_id t"
    if "m < length (background s)" "m \<noteq> n" for m
    using dist that n by (auto simp: t_def distinct_conv_nth)
  have ids: "map task_job_id ((background s)[n := t']) = map task_job_id (background s)"
  proof -
    have "map task_job_id ((background s)[n := t']) =
            (map task_job_id (background s))[n := map task_job_id (background s) ! n]"
      using n by (simp add: map_update t'_def t_def)
    then show ?thesis by (simp only: list_update_id)
  qed
  have step: "job_after (task_env t) (task_file_path t) (Suc (task_pc t)) =
                apply_action j (acts ! task_pc t)"
    using pc unfolding acts_def j_def by (rule job_after_Suc)
  define s' where "s' = run_task n s"
  have bg: "background s' = (background s)[n := t']"
    using n pc tj
    by (auto simp: s'_def run_task_def Let_def t_def[symmetric] acts_def[symmetric] t'_def
          split: action.splits)
  have uu: "uuid_calls s' = uuid_calls s"
    using n pc tj
    by (auto simp: s'_def run_task_def Let_def t_def[symmetric] acts_def[symmetric]
          split: action.splits)
  have jb: "jobs s' = (jobs s)(task_job_id t \<mapsto> apply_action j (acts ! task_pc t))"
    using n pc tj
    by (auto simp: s'_def run_task_def Let_def t_def[symmetric] acts_def[symmetric]
          split: action.splits)
  have "task_ok uuid4 s' (background s' ! m)" if m: "m < length (background s')" for m
  proof (cases "m = n")
    case True
    then have "background s' ! m = t'" using n by (simp add: bg)
    moreover have "task_ok uuid4 s' t'"
      using oks[OF n] by (simp add: task_ok_def t'_def jb step uu t_def[symmetric])
    ultimately show ?thesis by simp
  next
    case False
    then have "background s' ! m = background s ! m" by (simp add: bg)
    moreover have "task_ok uuid4 s' (background s ! m)"
      using oks[of m] other[of m] m False by (simp add: task_ok_def jb uu bg)
    ultimately show ?thesis by simp
  qed
  moreover have "distinct (map task_job_id (background s'))"
    using dist by (simp add: bg ids)
  moreover have "dom (jobs s') \<subseteq> set (map task_job_id (background s'))"
    using dom tj by (auto simp: jb bg ids)
  ultimately show ?thesis unfolding s'_def by (simp add: server_inv_def)
qed

lemma server_inv_process:
  "inj uuid4 \<Longrightarrow> server_inv uuid4 s \<Longrightarrow> server_inv uuid4 (process uuid4 s r)"
  by (cases r)
     (simp_all add: server_inv_start server_inv_run_task get_transcription_status_def
        split: option.splits)

lemma server_inv_serve:
  "inj uuid4 \<Longrightarrow> server_inv uuid4 s \<Longrightarrow> server_inv uuid4 (serve uuid4 reqs s)"
  unfolding serve_def
  by (induction reqs arbitrary: s) (simp_all add: server_inv_process)

lemma server_inv_reachable: "inj uuid4 \<Longrightarrow> server_inv uuid4 (serve uuid4 reqs init)"
  by (rule server_inv_serve) (simp_all add: server_inv_init)

lemma job_has_task:
  assumes "server_inv uuid4 s" "jobs s job_id = Some j"
  shows "\<exists>n < length (background s).
            task_job_id (background s ! n) = job_id \<and>
            j = job_after (task_env (background s ! n)) (task_file_path (background s ! n))
                  (task_pc (background s ! n)) \<and>
            (\<exists>i < uuid_calls s. job_id = uuid4 i)"
proof -
  have "job_id \<in> set (map task_job_id (background s))"
    using assms by (auto simp: server_inv_def)
  then obtain n where n: "n < length (background s)" "task_job_id (background s ! n) = job_id"
    by (auto simp: in_set_conv_nth)
  then have "task_ok uuid4 s (background s ! n)" using assms(1) by (simp add: server_inv_def)
  then show ?thesis using n assms(2) by (auto simp: task_ok_def)
qed

section \<open>The outcomes of the pipeline\<close>

lemmas pipeline_defs =
  transcribe_audio_def and_then_def call_def import_whisperx_def check_hf_token_def
  progress_callback_def returns_def raise_def

lemma pipeline_outcome:
  "calls_made env = take (length (calls_made env)) pipeline_calls
   \<and> list_all (\<lambda>c. raises env c = None) (butlast (calls_made env))
   \<and> reported env = take (length (reported env)) [5, 15, 25, 50, 65, 85, 95]
   \<and> (case snd (transcribe_audio env) of
         Inr r \<Rightarrow>
           r = build_transcript (segments env) \<and> calls_made env = pipeline_calls
           \<and> reported env = [5, 15, 25, 50, 65, 85, 95]
       | Inl e \<Rightarrow>
           95 \<notin> set (reported env)
           \<and> (raises env (last (calls_made env)) \<noteq> None
                \<or> ((hf_token env = None \<or> hf_token env = Some [])
                    \<and> calls_made env = take 6 pipeline_calls)))"
proof -
  consider
      (fail_ImportWhisperx) x where "raises env ImportWhisperx = Some x"
    | (fail_LoadModel) x where "raises env ImportWhisperx = None"
        "raises env LoadModel = Some x"
    | (fail_LoadAudio) x where "raises env ImportWhisperx = None"
        "raises env LoadModel = None"
        "raises env LoadAudio = Some x"
    | (fail_Transcribe) x where "raises env ImportWhisperx = None"
        "raises env LoadModel = None"
        "raises env LoadAudio = None"
        "raises env Transcribe = Some x"
    | (fail_LoadAlignModel) x where "raises env ImportWhisperx = None"
        "raises env LoadModel = None"
        "raises env LoadAudio = None"
        "raises env Transcribe = None"
        "raises env LoadAlignModel = Some x"
    | (fail_Align) x where "raises env ImportWhisperx = None"
        "raises env LoadModel = None"
        "raises env LoadAudio = None"
        "raises env Transcribe = None"
        "raises env LoadAlignModel = None"
        "raises env Align = Some x"
    | (fail_Token) "raises env ImportWhisperx = None"
        "raises env LoadModel = None"
        "raises env LoadAudio = None"
        "raises env Transcribe = None"
        "raises env LoadAlignModel = None"
        "raises env Align = None"
        "hf_token env = None \<or> hf_token env = Some []"
    | (fail_DiarizationPipeline) x where "raises env ImportWhisperx = None"
        "raises env LoadModel = None"
        "raises env LoadAudio = None"
        "raises env Transcribe = None"
        "raises env LoadAlignModel = None"
        "raises env Align = None"
        "hf_token env \<noteq> None"
        "hf_token env \<noteq> Some []"
        "raises env DiarizationPipeline = Some x"
    | (fail_Diarize) x where "raises env ImportWhisperx = None"
        "raises env LoadModel = None"
        "raises env LoadAudio = None"
        "raises env Transcribe = None"
        "raises env LoadAlignModel = None"
        "raises env Align = None"
        "hf_token env \<noteq> None"
        "hf_token env \<noteq> Some []"
        "raises env DiarizationPipeline = None"
        "raises env Diarize = Some x"
    | (fail_AssignWordSpeakers) x where "raises env ImportWhisperx = None"
        "raises env LoadModel = None"
        "raises env LoadAudio = None"
        "raises env Transcribe = None"
        "raises env LoadAlignModel = None"
        "raises env Align = None"
        "hf_token env \<noteq> None"
        "hf_token env \<noteq> Some []"
        "raises env DiarizationPipeline = None"
        "raises env Diarize = None"
        "raises env AssignWordSpeakers = Some x"
    | (all_ok) "raises env ImportWhisperx = None"
        "raises env LoadModel = None"
        "raises env LoadAudio = None"
        "raises env Transcribe = None"
        "raises env LoadAlignModel = None"
        "raises env Align = None"
        "hf_token env \<noteq> None"
        "hf_token env \<noteq> Some []"
        "raises env DiarizationPipeline = None"
        "raises env Diarize = None"
        "raises env AssignWordSpeakers = None"
    by (metis not_Some_eq)
  then show ?thesis
  proof cases
    case fail_ImportWhisperx
    then show ?thesis
      unfolding calls_made_def reported_def pipeline_calls_def pipeline_defs
      by (simp split: exn.splits)
  next
    case fail_LoadModel
    then show ?thesis
      unfolding calls_made_def reported_def pipeline_calls_def pipeline_defs
      by (simp)
  next
    case fail_LoadAudio
    then show ?thesis
      unfolding calls_made_def reported_def pipeline_calls_def pipeline_defs
      by (simp)
  next
    case fail_Transcribe
    then show ?thesis
      unfolding calls_made_def reported_def pipeline_calls_def pipeline_defs
      by (simp)
  next
    case fail_LoadAlignModel
    then show ?thesis
      unfolding calls_made_def reported_def pipeline_calls_def pipeline_defs
      by (simp)
  next
    case fail_Align
    then show ?thesis
      unfolding calls_made_def reported_def pipeline_calls_def pipeline_defs
      by (simp)
  next
    case fail_Token
    then show ?thesis
      unfolding calls_made_def reported_def pipeline_calls_def pipeline_defs
      by (simp)
  next
    case fail_DiarizationPipeline
    then show ?thesis
      unfolding calls_made_def reported_def pipeline_calls_def pipeline_defs
      by (simp)
  next
    case fail_Diarize
    then show ?thesis
      unfolding calls_made_def reported_def pipeline_calls_def pipeline_defs
      by (simp)
  next
    case fail_AssignWordSpeakers
    then show ?thesis
      unfolding calls_made_def reported_def pipeline_calls_def pipeline_defs
      by (simp)
  next
    case all_ok
    then show ?thesis
      unfolding calls_made_def reported_def pipeline_calls_def pipeline_defs
      by (simp)
  qed
qed

section \<open>The record at the end of a run\<close>

lemma events_keep:
  "status (foldl apply_action j (concat (map event_actions evs))) = status j
   \<and> transcript (foldl apply_action j (concat (map event_actions evs))) = transcript j
   \<and> error (foldl apply_action j (concat (map event_actions evs))) = error j
   \<and> file_path (foldl apply_action j (concat (map event_actions evs))) = file_path j"
proof (induction evs arbitrary: j)
  case Nil
  then show ?case by simp
next
  case (Cons ev evs)
  then show ?case by (cases ev) simp_all
qed

lemma events_progress:
  "progress (foldl apply_action j (concat (map event_actions evs))) =
     last (progress j # concat (map callback_progress evs))"
proof (induction evs arbitrary: j)
  case Nil
  then show ?case by simp
next
  case (Cons ev evs)
  then show ?case by (cases ev) simp_all
qed

lemma job_before_last_block_eq:
  "job_before_last_block env path = foldl apply_action (new_job path) (first_part env)"
  by (simp add: job_before_last_block_def job_after_def run_transcription_parts)

lemma job_before_last_block_fields:
  "status (job_before_last_block env path) = Processing
   \<and> progress (job_before_last_block env path) = last (10 # reported env)
   \<and> transcript (job_before_last_block env path) = None
   \<and> error (job_before_last_block env path) = None
   \<and> file_path (job_before_last_block env path) = path"
  unfolding job_before_last_block_eq first_part_def reported_def
  by (simp add: events_keep events_progress new_job_def)

lemma final_job_eq:
  "final_job env path = foldl apply_action (job_before_last_block env path) (last_block env path)"
  by (simp add: final_job_def job_after_def run_transcription_parts job_before_last_block_eq)

lemma reported_below_100: "last (10 # reported env) < 100"
proof -
  have "reported env = take (length (reported env)) [5, 15, 25, 50, 65, 85, 95]"
    using pipeline_outcome[of env] by simp
  then have "set (reported env) \<subseteq> set [5, 15, 25, 50, 65, 85, 95]"
    by (metis set_take_subset)
  then have "\<forall>p \<in> set (10 # reported env). p < 100" by auto
  then show ?thesis using last_in_set[of "10 # reported env"] by blast
qed

lemma progress_of_events:
  "concat (map progress_of (concat (map event_actions evs))) = concat (map callback_progress evs)"
proof (induction evs)
  case Nil
  then show ?case by simp
next
  case (Cons ev evs)
  then show ?case by (cases ev) simp_all
qed

lemma progress_writes_shape:
  "progress_writes env path =
     0 # 10 # reported env @ (case snd (transcribe_audio env) of Inl e \<Rightarrow> [] | Inr r \<Rightarrow> [100])"
  by (simp add: progress_writes_def run_transcription_parts first_part_def last_block_def
        progress_of_events reported_def new_job_def split: sum.splits)

lemma checkpoints_increase:
  "sorted (drop 2 (progress_writes env path))"
proof -
  have r: "reported env = take (length (reported env)) [5, 15, 25, 50, 65, 85, 95]"
    using pipeline_outcome[of env] by simp
  have "sorted (take (length (reported env)) [5, 15, 25, 50, 65, 85, 95 :: int])"
    by (rule sorted_wrt_take) simp
  then have s: "sorted (reported env)" using r by simp
  have "set (reported env) \<subseteq> set [5, 15, 25, 50, 65, 85, 95]"
    using r by (metis set_take_subset)
  then have "\<forall>p \<in> set (reported env). p \<le> 100" by auto
  then show ?thesis using s
    by (simp add: progress_writes_shape sorted_append split: sum.splits)
qed

section \<open>Records in the states of the server\<close>

lemma foldl_no_write: "\<not> list_ex is_write xs \<Longrightarrow> foldl apply_action j xs = j"
proof (induction xs arbitrary: j)
  case Nil
  then show ?case by simp
next
  case (Cons a xs)
  then show ?case by (cases a) simp_all
qed

lemma job_after_writes_done:
  assumes "\<not> list_ex is_write (drop k (run_transcription env path))"
  shows "job_after env path k = job_after env path (length (run_transcription env path))"
proof -
  let ?acts = "run_transcription env path"
  have "foldl apply_action (new_job path) (take k ?acts @ drop k ?acts) =
          foldl apply_action (foldl apply_action (new_job path) (take k ?acts)) (drop k ?acts)"
    by (rule foldl_append)
  then show ?thesis using foldl_no_write[OF assms] by (simp add: job_after_def)
qed

lemma assignments_done_iff:
  "assignments_done s job_id \<longleftrightarrow>
     (\<forall>t \<in> set (background s). task_job_id t = job_id \<longrightarrow> writes_done t)"
  by (auto simp: assignments_done_def list_all_iff)

lemma job_record_state:
  assumes "inj uuid4" and "jobs (serve uuid4 reqs init) job_id = Some j"
  shows "consistent j \<and> (assignments_done (serve uuid4 reqs init) job_id \<longrightarrow>
           settled j \<and> terminal (status j))"
proof -
  let ?s = "serve uuid4 reqs init"
  have inv: "server_inv uuid4 ?s" using assms(1) by (rule server_inv_reachable)
  obtain n where n: "n < length (background ?s)" "task_job_id (background ?s ! n) = job_id"
    and j: "j = job_after (task_env (background ?s ! n)) (task_file_path (background ?s ! n))
                  (task_pc (background ?s ! n))"
    using job_has_task[OF inv assms(2)] by blast
  have c: "consistent j" unfolding j by (rule job_after_consistent)
  have "settled j \<and> terminal (status j)" if r: "assignments_done ?s job_id"
  proof -
    have "writes_done (background ?s ! n)"
      using r n unfolding assignments_done_iff by simp
    then have "j = job_after (task_env (background ?s ! n)) (task_file_path (background ?s ! n))
        (length (run_transcription (task_env (background ?s ! n))
                   (task_file_path (background ?s ! n))))"
      unfolding j writes_done_def by (rule job_after_writes_done)
    then show ?thesis using job_after_settled[OF le_refl] by simp
  qed
  then show ?thesis using c by simp
qed

lemma filter_update_other:
  "n < length xs \<Longrightarrow> \<not> P (xs ! n) \<Longrightarrow> \<not> P y \<Longrightarrow> filter P (xs[n := y]) = filter P xs"
proof (induction xs arbitrary: n)
  case Nil
  then show ?case by simp
next
  case (Cons x xs)
  then show ?case by (cases n) simp_all
qed

lemma get_transcription_status_reads: "snd (get_transcription_status job_id s) = s"
  by (simp add: get_transcription_status_def split: option.splits)

lemma run_task_idle:
  "\<not> (n < length (background s) \<and>
       task_pc (background s ! n) <
         length (run_transcription (task_env (background s ! n))
                   (task_file_path (background s ! n)))) \<Longrightarrow>
   run_task n s = s"
  by (auto simp: run_task_def Let_def)

lemma run_task_shape:
  assumes n: "n < length (background s)"
    and t: "t = background s ! n"
    and acts: "acts = run_transcription (task_env t) (task_file_path t)"
    and pc: "task_pc t < length acts"
  shows "\<exists>t' js up.
           run_task n s = s\<lparr>jobs := js, uploads := up, background := (background s)[n := t']\<rparr>
           \<and> task_job_id t' = task_job_id t \<and> task_env t' = task_env t
           \<and> task_file_path t' = task_file_path t \<and> task_pc t \<le> task_pc t'
           \<and> (\<forall>job_id. job_id \<noteq> task_job_id t \<or> \<not> is_write (acts ! task_pc t)
                 \<longrightarrow> js job_id = jobs s job_id)"
proof (cases "acts ! task_pc t")
  case (Write w)
  show ?thesis
  proof (cases "jobs s (task_job_id t)")
    case None
    then have "run_task n s =
        s\<lparr>jobs := jobs s, uploads := uploads s,
          background := (background s)[n := t\<lparr>task_pc := length acts\<rparr>]\<rparr>"
      using n pc Write by (simp add: run_task_def Let_def t[symmetric] acts[symmetric])
    then show ?thesis using pc
      by (intro exI[of _ "t\<lparr>task_pc := length acts\<rparr>"] exI[of _ "jobs s"] exI[of _ "uploads s"])
         simp
  next
    case (Some j)
    then have "run_task n s =
        s\<lparr>jobs := (jobs s)(task_job_id t \<mapsto> apply_write w j), uploads := uploads s,
          background := (background s)[n := t\<lparr>task_pc := Suc (task_pc t)\<rparr>]\<rparr>"
      using n pc Write by (simp add: run_task_def Let_def t[symmetric] acts[symmetric])
    then show ?thesis using Write
      by (intro exI[of _ "t\<lparr>task_pc := Suc (task_pc t)\<rparr>"]
            exI[of _ "(jobs s)(task_job_id t \<mapsto> apply_write w j)"] exI[of _ "uploads s"])
         simp
  qed
next
  case (Invoke c)
  then have "run_task n s =
      s\<lparr>jobs := jobs s, uploads := uploads s,
        background := (background s)[n := t\<lparr>task_pc := Suc (task_pc t)\<rparr>]\<rparr>"
    using n pc by (simp add: run_task_def Let_def t[symmetric] acts[symmetric])
  then show ?thesis
    by (intro exI[of _ "t\<lparr>task_pc := Suc (task_pc t)\<rparr>"] exI[of _ "jobs s"] exI[of _ "uploads s"])
       simp
next
  case (OsRemove p)
  then have "run_task n s =
      s\<lparr>jobs := jobs s, uploads := (uploads s)(p := None),
        background := (background s)[n := t\<lparr>task_pc := Suc (task_pc t)\<rparr>]\<rparr>"
    using n pc by (simp add: run_task_def Let_def t[symmetric] acts[symmetric])
  then show ?thesis
    by (intro exI[of _ "t\<lparr>task_pc := Suc (task_pc t)\<rparr>"] exI[of _ "jobs s"]
          exI[of _ "(uploads s)(p := None)"]) simp
qed

lemma writes_done_later:
  assumes "writes_done t" and "task_env t' = task_env t"
    and "task_file_path t' = task_file_path t" and "task_pc t \<le> task_pc t'"
  shows "writes_done t'"
proof -
  let ?acts = "run_transcription (task_env t) (task_file_path t)"
  have "set (drop (task_pc t') ?acts) \<subseteq> set (drop (task_pc t) ?acts)"
    using assms(4) by (rule set_drop_subset_set_drop)
  then show ?thesis using assms(1-3) by (auto simp: writes_done_def list_ex_iff)
qed

lemma next_statement_no_write:
  assumes "writes_done t"
    and "task_pc t < length (run_transcription (task_env t) (task_file_path t))"
  shows "\<not> is_write (run_transcription (task_env t) (task_file_path t) ! task_pc t)"
proof -
  let ?acts = "run_transcription (task_env t) (task_file_path t)"
  have "?acts ! task_pc t \<in> set (drop (task_pc t) ?acts)"
    using assms(2) by (metis Cons_nth_drop_Suc list.set_intros(1))
  then show ?thesis using assms(1) by (auto simp: writes_done_def list_ex_iff)
qed

lemma run_task_frame:
  assumes "assignments_done s job_id"
  shows "jobs (run_task n s) job_id = jobs s job_id
         \<and> assignments_done (run_task n s) job_id
         \<and> uuid_calls (run_task n s) = uuid_calls s"
proof (cases "n < length (background s) \<and>
       task_pc (background s ! n) <
         length (run_transcription (task_env (background s ! n))
                   (task_file_path (background s ! n)))")
  case False
  then have "run_task n s = s" by (rule run_task_idle)
  then show ?thesis using assms by simp
next
  case True
  define t where "t = background s ! n"
  define acts where "acts = run_transcription (task_env t) (task_file_path t)"
  have n: "n < length (background s)" and pc: "task_pc t < length acts"
    using True by (simp_all add: t_def acts_def)
  obtain t' js up where
    rt: "run_task n s = s\<lparr>jobs := js, uploads := up, background := (background s)[n := t']\<rparr>"
    and same: "task_job_id t' = task_job_id t" "task_env t' = task_env t"
      "task_file_path t' = task_file_path t" "task_pc t \<le> task_pc t'"
    and js: "\<And>job_id. job_id \<noteq> task_job_id t \<or> \<not> is_write (acts ! task_pc t)
                \<Longrightarrow> js job_id = jobs s job_id"
    using run_task_shape[OF n t_def acts_def pc] by blast
  have tin: "t \<in> set (background s)" using n by (simp add: t_def)
  have own: "writes_done t" if "task_job_id t = job_id"
    using assms tin that unfolding assignments_done_iff by blast
  have "js job_id = jobs s job_id"
  proof (cases "task_job_id t = job_id")
    case True
    then have "\<not> is_write (acts ! task_pc t)"
      using next_statement_no_write[OF own] pc by (simp add: acts_def)
    then show ?thesis by (simp add: js)
  next
    case False
    then show ?thesis by (simp add: js)
  qed
  moreover have "assignments_done (run_task n s) job_id"
    unfolding assignments_done_iff
  proof (intro ballI impI)
    fix x assume x: "x \<in> set (background (run_task n s))" "task_job_id x = job_id"
    then have "x = t' \<or> x \<in> set (background s)"
      using set_update_subset_insert[of "background s" n t'] by (auto simp: rt)
    then show "writes_done x"
    proof
      assume "x = t'"
      then show ?thesis using x(2) same own writes_done_later[of t t'] by simp
    next
      assume "x \<in> set (background s)"
      then show ?thesis using assms x(2) unfolding assignments_done_iff by blast
    qed
  qed
  ultimately show ?thesis by (simp add: rt)
qed

lemma run_task_other_job:
  assumes "\<not> (n < length (background s) \<and> task_job_id (background s ! n) = job_id)"
  shows "jobs (run_task n s) job_id = jobs s job_id"
proof (cases "n < length (background s) \<and>
       task_pc (background s ! n) <
         length (run_transcription (task_env (background s ! n))
                   (task_file_path (background s ! n)))")
  case False
  then have "run_task n s = s" by (rule run_task_idle)
  then show ?thesis by simp
next
  case True
  then obtain t' js up where
    rt: "run_task n s = s\<lparr>jobs := js, uploads := up, background := (background s)[n := t']\<rparr>"
    and js: "\<And>x. x \<noteq> task_job_id (background s ! n) \<Longrightarrow> js x = jobs s x"
    using run_task_shape[OF _ refl refl, of n s] by blast
  show ?thesis using True assms by (simp add: rt js)
qed

lemma run_task_own_job:
  assumes "n < length (background s)"
    and "task_pc (background s ! n) <
           length (run_transcription (task_env (background s ! n))
                     (task_file_path (background s ! n)))"
    and "jobs s (task_job_id (background s ! n)) = Some j"
  shows "jobs (run_task n s) (task_job_id (background s ! n)) =
           Some (apply_action j
                   (run_transcription (task_env (background s ! n))
                      (task_file_path (background s ! n)) ! task_pc (background s ! n)))"
  using assms by (auto simp: run_task_def Let_def split: action.splits)

lemma process_frame:
  assumes "untouched uuid4 s job_id"
  shows "jobs (process uuid4 s r) job_id = jobs s job_id \<and> untouched uuid4 (process uuid4 s r) job_id"
proof (cases r)
  case (StartTranscription audio save env)
  have new: "uuid4 (uuid_calls s) \<noteq> job_id" using assms by (simp add: untouched_def)
  show ?thesis
    using assms new unfolding StartTranscription
    by (auto simp: start_transcription_def Let_def untouched_def assignments_done_def
          split: save_outcome.splits)
next
  case (GetStatus x)
  then show ?thesis using assms by (simp add: get_transcription_status_reads)
next
  case (RunTask n)
  then show ?thesis
    using assms run_task_frame[of s job_id n] by (simp add: untouched_def)
qed

lemma serve_frame:
  "untouched uuid4 s job_id \<Longrightarrow> jobs (serve uuid4 reqs s) job_id = jobs s job_id"
  unfolding serve_def
proof (induction reqs arbitrary: s)
  case Nil
  then show ?case by simp
next
  case (Cons r reqs)
  then show ?case using process_frame[of uuid4 s job_id r] by simp
qed

lemma poll_reads_job: "jobs s job_id = jobs s' job_id \<Longrightarrow>
    fst (get_transcription_status job_id s) = fst (get_transcription_status job_id s')"
  by (simp add: get_transcription_status_def split: option.splits)

section \<open>The examples, evaluated\<close>

lemma inj_uuid_demo: "inj uuid_demo"
  by (auto simp: inj_def uuid_demo_def dest: arg_cong[where f = length])

lemma diarize_fails_outcome:
  "snd (transcribe_audio env_diarize_fails) = Inl (Exception ''CUDA out of memory'')
   \<and> reported env_diarize_fails = [5, 15, 25, 50, 65]
   \<and> calls_made env_diarize_fails =
       [ImportWhisperx, LoadModel, LoadAudio, Transcribe, LoadAlignModel, Align,
        DiarizationPipeline, Diarize]"
  by code_simp

lemma last_assignment_state:
  "jobs (serve uuid_demo (StartTranscription upload_mp3 Saved env_ok # replicate 30 (RunTask 0)) init) ''u''
     = Some \<lparr>status = Completed, progress = 100, message = ''Transkription abgeschlossen'',
             file_path = ''uploads/u_sitzung.mp3'',
             transcript = Some [\<lparr>speaker = ''SPEAKER_00'', text' = ''Guten Tag.''\<rparr>],
             error = None\<rparr>
   \<and> assignments_done
        (serve uuid_demo (StartTranscription upload_mp3 Saved env_ok # replicate 30 (RunTask 0)) init) ''u''
   \<and> uploads
        (serve uuid_demo (StartTranscription upload_mp3 Saved env_ok # replicate 30 (RunTask 0)) init)
        ''uploads/u_sitzung.mp3'' = Some ''ID3''"
  by code_simp

lemma later_requests_state:
  "fst (get_transcription_status ''u''
     (serve uuid_demo [RunTask 0, StartTranscription upload_mp3 Saved env_diarize_fails, RunTask 0,
                       GetStatus ''u'', RunTask 1, RunTask 1, RunTask 0, RunTask 7]
        (serve uuid_demo (StartTranscription upload_mp3 Saved env_ok # replicate 30 (RunTask 0)) init)))
   = Inr \<lparr>tj_job_id = ''u'', tj_status = Completed, tj_progress = 100,
          tj_message = ''Transkription abgeschlossen'',
          tj_transcript = Some [\<lparr>speaker = ''SPEAKER_00'', text' = ''Guten Tag.''\<rparr>],
          tj_error = None\<rparr>"
  by code_simp

lemma updates_concat: "concat (updates env path) = run_transcription env path"
  by (simp add: updates_def run_transcription_parts first_part_def)

lemma first_assignment_state:
  "jobs (serve uuid_demo [StartTranscription upload_mp3 Saved env_ok, RunTask 0] init) ''u''
     = Some \<lparr>status = Processing, progress = 0, message = ''Audio hochgeladen'',
             file_path = ''uploads/u_sitzung.mp3'', transcript = None, error = None\<rparr>"
  by code_simp

section \<open>The claims about the transcript\<close>

text \<open>
  Claim C4. The final assembly of \<open>transcribe_audio\<close> keeps the order of the segments
  and drops exactly those whose text is empty after trimming: the result is the list
  of the remaining segments, each turned into a line with its trimmed text, so its
  length is the number of segments minus the number of dropped ones. A segment
  without a speaker label gets the speaker \<open>UNKNOWN\<close>, a labelled one keeps its label.
\<close>

theorem build_transcript_order_and_cardinality:
  "build_transcript segs =
     map (\<lambda>seg. \<lparr>speaker = get_speaker seg, text' = strip (get_text seg)\<rparr>)
       (filter (\<lambda>seg. strip (get_text seg) \<noteq> []) segs)
   \<and> length (build_transcript segs) =
       length segs - length (filter (\<lambda>seg. strip (get_text seg) = []) segs)
   \<and> (seg_speaker seg = None \<longrightarrow> get_speaker seg = ''UNKNOWN'')
   \<and> (seg_speaker seg = Some spk \<longrightarrow> get_speaker seg = spk)"
proof -
  have "length (filter (\<lambda>seg. strip (get_text seg) \<noteq> []) segs) =
          length segs - length (filter (\<lambda>seg. strip (get_text seg) = []) segs)"
    using sum_length_filter_compl[of "\<lambda>seg. strip (get_text seg) = []" segs] by simp
  then show ?thesis
    by (simp add: build_transcript_def convert_segments_acc get_speaker_def)
qed

text \<open>The theorem at four segments: one without a speaker, two without text.\<close>

theorem build_transcript_witness:
  "build_transcript
     [\<lparr>seg_speaker = None, seg_text = Some ''  Guten Morgen ''\<rparr>,
      \<lparr>seg_speaker = Some ''SPEAKER_01'', seg_text = Some ''   ''\<rparr>,
      \<lparr>seg_speaker = Some ''SPEAKER_00'', seg_text = None\<rparr>,
      \<lparr>seg_speaker = Some ''SPEAKER_00'', seg_text = Some ''Danke.''\<rparr>]
   = [\<lparr>speaker = ''UNKNOWN'', text' = ''Guten Morgen''\<rparr>,
      \<lparr>speaker = ''SPEAKER_00'', text' = ''Danke.''\<rparr>]
   \<and> get_speaker \<lparr>seg_speaker = None, seg_text = Some ''  Guten Morgen ''\<rparr> = ''UNKNOWN''"
  using build_transcript_order_and_cardinality
    [of "[\<lparr>seg_speaker = None, seg_text = Some ''  Guten Morgen ''\<rparr>,
          \<lparr>seg_speaker = Some ''SPEAKER_01'', seg_text = Some ''   ''\<rparr>,
          \<lparr>seg_speaker = Some ''SPEAKER_00'', seg_text = None\<rparr>,
          \<lparr>seg_speaker = Some ''SPEAKER_00'', seg_text = Some ''Danke.''\<rparr>]"
        "\<lparr>seg_speaker = None, seg_text = Some ''  Guten Morgen ''\<rparr>" "''x''"]
  by (simp add: get_speaker_def get_text_def strip_def lstrip_def rstrip_def isspace_def)

lemma parse_transcript_file_example:
  "parse_transcript_file
     (''[SPEAKER_01]: Hello world'' @ [LF, LF] @ ''[SPEAKER_02]:  '' @ [LF] @
      ''not a match line'' @ [LF] @ ''[SPEAKER_01]: Second'')
   = [\<lparr>speaker = ''SPEAKER_01'', text' = ''Hello world''\<rparr>,
      \<lparr>speaker = ''SPEAKER_01'', text' = ''Second''\<rparr>]"
  by code_simp

lemma decode_example:
  "List.map_filter decode_line
     (file_lines (''  [SPEAKER_7]:Guten Tag  '' @ [CR, LF] @ ''[SPEAKER_x]: nein'' @ [CR] @
        ''[SPEAKER_12]:'' @ [LF] @ ''Hinweis'' @ [LF]))
   = [\<lparr>speaker = ''SPEAKER_7'', text' = ''Guten Tag''\<rparr>]"
  by code_simp

text \<open>
  Claim C5, as the code has it. For every content of the file,
  \<open>parse_transcript_file\<close> returns, in the order of the lines, the line that
  \<open>decode_line\<close> gives for each line that has one: a line that is, once trimmed,
  \<open>[SPEAKER_\<close>, digits, \<open>]:\<close>, whitespace or none, and a text that is not empty once
  trimmed gives the speaker \<open>SPEAKER_\<close> with these digits and the trimmed text; blank
  lines, lines of another shape and lines with no text give nothing. Whatever the
  pattern as the specification writes it decodes, the code decodes to the same
  line. The input of the specification yields exactly its two lines.
\<close>

theorem parse_transcript_file_contract:
  "parse_transcript_file content = List.map_filter decode_line (file_lines content)
   \<and> (decode_line_as_specified raw = Some l \<longrightarrow> decode_line raw = Some l)
   \<and> parse_transcript_file
       (''[SPEAKER_01]: Hello world'' @ [LF, LF] @ ''[SPEAKER_02]:  '' @ [LF] @
        ''not a match line'' @ [LF] @ ''[SPEAKER_01]: Second'')
     = [\<lparr>speaker = ''SPEAKER_01'', text' = ''Hello world''\<rparr>,
        \<lparr>speaker = ''SPEAKER_01'', text' = ''Second''\<rparr>]"
  using parse_transcript_file_decode parse_transcript_file_example
    specified_line_is_decoded[of raw l]
  by simp

text \<open>
  The theorem at a file with \<open>\r\n\<close> and \<open>\r\<close> line ends, a line with surrounding
  blanks and no blank after the colon, and three lines that give nothing; and at a
  line that the pattern of the specification decodes.
\<close>

theorem parse_transcript_file_witness:
  "parse_transcript_file
     (''  [SPEAKER_7]:Guten Tag  '' @ [CR, LF] @ ''[SPEAKER_x]: nein'' @ [CR] @
      ''[SPEAKER_12]:'' @ [LF] @ ''Hinweis'' @ [LF])
   = [\<lparr>speaker = ''SPEAKER_7'', text' = ''Guten Tag''\<rparr>]
   \<and> decode_line_as_specified ''[SPEAKER_3]: Danke '' =
       Some \<lparr>speaker = ''SPEAKER_3'', text' = ''Danke''\<rparr>
   \<and> decode_line ''[SPEAKER_3]: Danke '' = Some \<lparr>speaker = ''SPEAKER_3'', text' = ''Danke''\<rparr>"
proof -
  have a: "decode_line_as_specified ''[SPEAKER_3]: Danke '' =
       Some \<lparr>speaker = ''SPEAKER_3'', text' = ''Danke''\<rparr>"
    by code_simp
  show ?thesis
    using a parse_transcript_file_contract
      [of "''  [SPEAKER_7]:Guten Tag  '' @ [CR, LF] @ ''[SPEAKER_x]: nein'' @ [CR] @
           ''[SPEAKER_12]:'' @ [LF] @ ''Hinweis'' @ [LF]"
          "''[SPEAKER_3]: Danke ''" "\<lparr>speaker = ''SPEAKER_3'', text' = ''Danke''\<rparr>"]
    unfolding decode_example by simp
qed

text \<open>
  Claim C5 as stated fails on a line with no blank after the colon and on a line
  with blanks before the bracket: the pattern as the specification writes it
  matches neither, and the parser returns a line for each.
\<close>

theorem lines_outside_the_stated_pattern_are_decoded:
  "parse_transcript_file (''[SPEAKER_7]:Guten Tag'' @ [LF] @ ''  [SPEAKER_8]: Danke'')
     = [\<lparr>speaker = ''SPEAKER_7'', text' = ''Guten Tag''\<rparr>,
        \<lparr>speaker = ''SPEAKER_8'', text' = ''Danke''\<rparr>]
   \<and> List.map_filter decode_line_as_specified
       (file_lines (''[SPEAKER_7]:Guten Tag'' @ [LF] @ ''  [SPEAKER_8]: Danke'')) = []"
  by code_simp

section \<open>The claims about the life of a job\<close>

text \<open>
  Claim C1. The values written to the progress of a job are claimed never to
  decrease. On a run in which nothing fails they are 0 at the creation, 10 when
  \<open>run_transcription\<close> starts, and then the checkpoints of \<open>transcribe_audio\<close>, the
  first of which is 5: the sequence is not sorted. From that first checkpoint on,
  the values written in any run do increase.
\<close>

theorem progress_drops_from_10_to_5:
  "progress_writes env_ok ''uploads/u_sitzung.mp3'' = [0, 10, 5, 15, 25, 50, 65, 85, 95, 100]
   \<and> \<not> sorted (progress_writes env_ok ''uploads/u_sitzung.mp3'')
   \<and> sorted (drop 2 (progress_writes env path))"
proof -
  have "progress_writes env_ok ''uploads/u_sitzung.mp3'' = [0, 10, 5, 15, 25, 50, 65, 85, 95, 100]"
    by code_simp
  then show ?thesis using checkpoints_increase[of env path] by simp
qed

text \<open>
  Claim C2, as the code has it. In every state that the server reaches, whatever
  the requests and the order in which the statements of the background tasks run
  (the identifiers that \<open>uuid4\<close> gives being distinct), the record of a job never has
  both a transcript and an error; a pending or processing job has neither, a
  completed job has no error and a failed job no transcript. Once the last
  assignment of the run of the job is done, a completed job has its transcript and
  a failed job its error.
\<close>

theorem job_record_consistency:
  assumes "inj uuid4" and "jobs (serve uuid4 reqs init) job_id = Some j"
  shows "(transcript j = None \<or> error j = None)
         \<and> (status j = Pending \<or> status j = Processing \<longrightarrow>
              transcript j = None \<and> error j = None)
         \<and> (status j = Completed \<longrightarrow> error j = None)
         \<and> (status j = Failed \<longrightarrow> transcript j = None)
         \<and> (assignments_done (serve uuid4 reqs init) job_id \<longrightarrow>
              (status j = Completed \<and> transcript j \<noteq> None \<and> error j = None)
              \<or> (status j = Failed \<and> error j \<noteq> None \<and> transcript j = None))"
  using job_record_state[OF assms]
  by (cases "status j") (auto simp: consistent_def settled_def terminal_def)

text \<open>
  The theorem at the state after a submission and the first 30 statements of its
  run: the transcript is assigned, and \<open>os.remove\<close> has not run yet.
\<close>

theorem job_record_consistency_witness:
  "inj uuid_demo
   \<and> jobs (serve uuid_demo (StartTranscription upload_mp3 Saved env_ok # replicate 30 (RunTask 0)) init) ''u''
     = Some \<lparr>status = Completed, progress = 100, message = ''Transkription abgeschlossen'',
             file_path = ''uploads/u_sitzung.mp3'',
             transcript = Some [\<lparr>speaker = ''SPEAKER_00'', text' = ''Guten Tag.''\<rparr>],
             error = None\<rparr>
   \<and> assignments_done
        (serve uuid_demo (StartTranscription upload_mp3 Saved env_ok # replicate 30 (RunTask 0)) init) ''u''
   \<and> uploads
        (serve uuid_demo (StartTranscription upload_mp3 Saved env_ok # replicate 30 (RunTask 0)) init)
        ''uploads/u_sitzung.mp3'' = Some ''ID3''"
proof -
  have j: "jobs (serve uuid_demo (StartTranscription upload_mp3 Saved env_ok # replicate 30 (RunTask 0)) init) ''u''
     = Some \<lparr>status = Completed, progress = 100, message = ''Transkription abgeschlossen'',
             file_path = ''uploads/u_sitzung.mp3'',
             transcript = Some [\<lparr>speaker = ''SPEAKER_00'', text' = ''Guten Tag.''\<rparr>],
             error = None\<rparr>"
    using last_assignment_state by simp
  show ?thesis
    using inj_uuid_demo job_record_consistency[OF inj_uuid_demo j] last_assignment_state
    by simp
qed

text \<open>
  Claim C2 as stated fails between the assignments of lines 191 and 194 of main.py:
  after 27 statements of a run in which nothing fails, the status is completed and
  the transcript is still absent.
\<close>

theorem completed_before_transcript_is_stored:
  "jobs (serve uuid_demo (StartTranscription upload_mp3 Saved env_ok # replicate 27 (RunTask 0)) init) ''u''
     = Some \<lparr>status = Completed, progress = 95, message = ''Transkript wird erstellt...'',
             file_path = ''uploads/u_sitzung.mp3'', transcript = None, error = None\<rparr>"
  by code_simp

text \<open>
  Claim C6. When \<open>transcribe_audio\<close> raises \<open>e\<close>, the run ends with the three
  assignments of the handler and nothing else: the job, which was processing, is
  failed, its message is \<open>Fehler:\<close> with the text of \<open>e\<close>, its error is that text, its
  transcript stays absent, and its progress stays what it was, the last value
  reported (or the initial 10), which is below 100. The calls into WhisperX that
  were made are an initial part of the pipeline, each made once, all but the last
  had returned, and the run stopped at the call that raised or at the missing
  token after the alignment; the last checkpoint was never reported.
\<close>

theorem failure_transition:
  assumes "snd (transcribe_audio env) = Inl e"
  shows "run_transcription env path =
           first_part env @
           [Write (SetStatus Failed), Write (SetError (str e)),
            Write (SetMessage (''Fehler: '' @ str e))]
         \<and> status (job_before_last_block env path) = Processing
         \<and> final_job env path =
             (job_before_last_block env path)
               \<lparr>status := Failed, error := Some (str e), message := ''Fehler: '' @ str e\<rparr>
         \<and> status (final_job env path) = Failed
         \<and> progress (final_job env path) = progress (job_before_last_block env path)
         \<and> progress (final_job env path) = last (10 # reported env)
         \<and> progress (final_job env path) < 100
         \<and> message (final_job env path) = ''Fehler: '' @ str e
         \<and> error (final_job env path) = Some (str e)
         \<and> transcript (final_job env path) = None
         \<and> calls_made env = take (length (calls_made env)) pipeline_calls
         \<and> list_all (\<lambda>c. raises env c = None) (butlast (calls_made env))
         \<and> (raises env (last (calls_made env)) \<noteq> None
              \<or> (token_missing env \<and> calls_made env = take 6 pipeline_calls))
         \<and> 95 \<notin> set (reported env)"
proof -
  have lb: "last_block env path =
      [Write (SetStatus Failed), Write (SetError (str e)),
       Write (SetMessage (''Fehler: '' @ str e))]"
    using assms by (simp add: last_block_def)
  have fin: "final_job env path =
      (job_before_last_block env path)
        \<lparr>status := Failed, error := Some (str e), message := ''Fehler: '' @ str e\<rparr>"
    by (simp add: final_job_eq lb)
  have po: "calls_made env = take (length (calls_made env)) pipeline_calls
         \<and> list_all (\<lambda>c. raises env c = None) (butlast (calls_made env))
         \<and> (raises env (last (calls_made env)) \<noteq> None
              \<or> (token_missing env \<and> calls_made env = take 6 pipeline_calls))
         \<and> 95 \<notin> set (reported env)"
    using pipeline_outcome[of env] assms by (simp add: token_missing_def)
  show ?thesis
    using po job_before_last_block_fields[of env path] reported_below_100[of env]
    by (simp add: run_transcription_parts lb fin)
qed

text \<open>The theorem at a run in which the diarization raises.\<close>

theorem failure_transition_witness:
  "snd (transcribe_audio env_diarize_fails) = Inl (Exception ''CUDA out of memory'')
   \<and> status (final_job env_diarize_fails ''uploads/u_sitzung.mp3'') = Failed
   \<and> progress (final_job env_diarize_fails ''uploads/u_sitzung.mp3'') = 65
   \<and> message (final_job env_diarize_fails ''uploads/u_sitzung.mp3'') = ''Fehler: CUDA out of memory''
   \<and> error (final_job env_diarize_fails ''uploads/u_sitzung.mp3'') = Some ''CUDA out of memory''
   \<and> transcript (final_job env_diarize_fails ''uploads/u_sitzung.mp3'') = None
   \<and> AssignWordSpeakers \<notin> set (calls_made env_diarize_fails)"
proof -
  have h: "snd (transcribe_audio env_diarize_fails) = Inl (Exception ''CUDA out of memory'')"
    using diarize_fails_outcome by simp
  let ?F = "final_job env_diarize_fails ''uploads/u_sitzung.mp3''"
  have a: "status ?F = Failed \<and> progress ?F = last (10 # reported env_diarize_fails)
           \<and> message ?F = ''Fehler: '' @ str (Exception ''CUDA out of memory'')
           \<and> error ?F = Some (str (Exception ''CUDA out of memory''))
           \<and> transcript ?F = None"
    using failure_transition[OF h, of "''uploads/u_sitzung.mp3''"] by blast
  have b: "AssignWordSpeakers \<notin> set (calls_made env_diarize_fails)"
    using diarize_fails_outcome by simp
  show ?thesis
    using h a b diarize_fails_outcome by simp
qed

section \<open>The claims about the endpoints\<close>

text \<open>
  Claim C8. A submission whose declared content type is not in the allow-list and
  whose file name has none of the suffixes \<open>.mp3\<close>, \<open>.wav\<close>, \<open>.m4a\<close> is answered with
  the status code 400 and leaves the server as it was: no call of \<open>uuid4\<close>, no job,
  no file, no background task.
\<close>

theorem unsupported_type_rejected:
  assumes "\<not> type_allowed audio"
    and "\<not> endswith_any (filename audio) [''.mp3'', ''.wav'', ''.m4a'']"
  shows "start_transcription uuid4 audio save env s =
           (Inl (HTTPException 400
                   (''Ung'' @ [CHR 0xFC] @ ''ltiger Dateityp. Erlaubt: MP3, WAV, M4A'')), s)
         \<and> uuid_calls (snd (start_transcription uuid4 audio save env s)) = uuid_calls s
         \<and> jobs (snd (start_transcription uuid4 audio save env s)) = jobs s
         \<and> uploads (snd (start_transcription uuid4 audio save env s)) = uploads s
         \<and> background (snd (start_transcription uuid4 audio save env s)) = background s"
  using assms by (simp add: start_transcription_def)

text \<open>The theorem at the upload of a PDF.\<close>

theorem unsupported_type_rejected_witness:
  "\<not> type_allowed upload_pdf
   \<and> \<not> endswith_any (filename upload_pdf) [''.mp3'', ''.wav'', ''.m4a'']
   \<and> start_transcription uuid_demo upload_pdf Saved env_ok init =
       (Inl (HTTPException 400
               (''Ung'' @ [CHR 0xFC] @ ''ltiger Dateityp. Erlaubt: MP3, WAV, M4A'')), init)"
proof -
  have a: "\<not> type_allowed upload_pdf"
    by (simp add: type_allowed_def upload_pdf_def allowed_types_def)
  have b: "\<not> endswith_any (filename upload_pdf) [''.mp3'', ''.wav'', ''.m4a'']"
    by (simp add: endswith_any_def endswith_def upload_pdf_def)
  show ?thesis
    using a b unsupported_type_rejected[OF a b, of uuid_demo Saved env_ok init] by simp
qed

text \<open>
  Claim C9, as the code has it. A poll changes nothing in the server, in any state.
  Once the last assignment of the run of a job is done, no later request and no
  statement of any background task changes its record (the identifiers that
  \<open>uuid4\<close> gives being distinct), so every later poll of the job gives the same
  response.
\<close>

theorem poll_stable_after_last_assignment:
  "snd (get_transcription_status any_id any_state) = any_state
   \<and> (inj uuid4 \<and> jobs (serve uuid4 reqs init) job_id \<noteq> None
        \<and> assignments_done (serve uuid4 reqs init) job_id \<longrightarrow>
      jobs (serve uuid4 later (serve uuid4 reqs init)) job_id = jobs (serve uuid4 reqs init) job_id
      \<and> fst (get_transcription_status job_id (serve uuid4 later (serve uuid4 reqs init)))
          = fst (get_transcription_status job_id (serve uuid4 reqs init)))"
proof -
  let ?s = "serve uuid4 reqs init"
  have "jobs (serve uuid4 later ?s) job_id = jobs ?s job_id
        \<and> fst (get_transcription_status job_id (serve uuid4 later ?s))
            = fst (get_transcription_status job_id ?s)"
    if inj: "inj uuid4" and ex: "jobs ?s job_id \<noteq> None" and fin: "assignments_done ?s job_id"
  proof -
    obtain j where j: "jobs ?s job_id = Some j" using ex by blast
    have inv: "server_inv uuid4 ?s" using inj by (rule server_inv_reachable)
    obtain i where i: "i < uuid_calls ?s" "job_id = uuid4 i"
      using job_has_task[OF inv j] by blast
    have "\<forall>k \<ge> uuid_calls ?s. uuid4 k \<noteq> job_id"
    proof (intro allI impI notI)
      fix k assume k: "uuid_calls ?s \<le> k" "uuid4 k = job_id"
      then have "k = i" using i(2) inj by (simp add: inj_eq)
      then show False using i(1) k(1) by simp
    qed
    then have "untouched uuid4 ?s job_id" using fin by (simp add: untouched_def)
    then have "jobs (serve uuid4 later ?s) job_id = jobs ?s job_id" by (rule serve_frame)
    then show ?thesis using poll_reads_job[of "serve uuid4 later ?s" job_id ?s] by simp
  qed
  then show ?thesis by (simp add: get_transcription_status_reads)
qed

text \<open>
  The theorem at a job whose transcript is assigned and whose \<open>os.remove\<close> has not
  run yet, followed by that last statement, the submission and part of the run of
  a second job, a poll, and steps of tasks that have ended or do not exist.
\<close>

theorem poll_stable_after_last_assignment_witness:
  "inj uuid_demo
   \<and> assignments_done
        (serve uuid_demo (StartTranscription upload_mp3 Saved env_ok # replicate 30 (RunTask 0)) init) ''u''
   \<and> fst (get_transcription_status ''u''
        (serve uuid_demo [RunTask 0, StartTranscription upload_mp3 Saved env_diarize_fails, RunTask 0,
                          GetStatus ''u'', RunTask 1, RunTask 1, RunTask 0, RunTask 7]
           (serve uuid_demo (StartTranscription upload_mp3 Saved env_ok # replicate 30 (RunTask 0)) init)))
     = fst (get_transcription_status ''u''
        (serve uuid_demo (StartTranscription upload_mp3 Saved env_ok # replicate 30 (RunTask 0)) init))"
proof -
  let ?reqs = "StartTranscription upload_mp3 Saved env_ok # replicate 30 (RunTask 0)"
  let ?s = "serve uuid_demo ?reqs init"
  have a: "jobs ?s ''u'' \<noteq> None" using last_assignment_state by simp
  have b: "assignments_done ?s ''u''" using last_assignment_state by simp
  show ?thesis
    using inj_uuid_demo a b
      poll_stable_after_last_assignment[of "''u''" ?s uuid_demo ?reqs "''u''"
        "[RunTask 0, StartTranscription upload_mp3 Saved env_diarize_fails, RunTask 0,
          GetStatus ''u'', RunTask 1, RunTask 1, RunTask 0, RunTask 7]"]
    by simp
qed

text \<open>
  Claim C9 as stated fails for a job whose status is already completed while the
  assignments of its run are not all done: the assignment of line 192 of main.py
  changes the record, and two polls around it differ.
\<close>

theorem terminal_record_written_again:
  "fst (get_transcription_status ''u''
     (serve uuid_demo (StartTranscription upload_mp3 Saved env_ok # replicate 27 (RunTask 0)) init))
   = Inr \<lparr>tj_job_id = ''u'', tj_status = Completed, tj_progress = 95,
          tj_message = ''Transkript wird erstellt...'', tj_transcript = None, tj_error = None\<rparr>
   \<and> fst (get_transcription_status ''u''
       (serve uuid_demo [RunTask 0]
         (serve uuid_demo (StartTranscription upload_mp3 Saved env_ok # replicate 27 (RunTask 0)) init)))
   = Inr \<lparr>tj_job_id = ''u'', tj_status = Completed, tj_progress = 100,
          tj_message = ''Transkript wird erstellt...'', tj_transcript = None, tj_error = None\<rparr>"
  by code_simp

text \<open>
  Claim C7, as the code has it. In every state that the server reaches (the
  identifiers that \<open>uuid4\<close> gives being distinct), the record of a job is written by
  one background task only, its own: a statement of any other task leaves it as it
  is, so two writers never interleave on a record. A statement of its own task
  changes at most one field, and the record is at every moment the result of the
  first statements of that task's run, in their order; a poll answers with the
  five fields of that record. An update of several fields is therefore not atomic.
\<close>

theorem record_has_one_writer:
  assumes "inj uuid4" and "s = serve uuid4 reqs init" and "jobs s job_id = Some j"
  shows "\<exists>n < length (background s).
           task_job_id (background s ! n) = job_id
           \<and> (\<forall>m < length (background s). task_job_id (background s ! m) = job_id \<longrightarrow> m = n)
           \<and> j = job_after (task_env (background s ! n)) (task_file_path (background s ! n))
                   (task_pc (background s ! n))
           \<and> (\<forall>m. m \<noteq> n \<longrightarrow> jobs (run_task m s) job_id = Some j)
           \<and> (task_pc (background s ! n) <
                 length (run_transcription (task_env (background s ! n))
                           (task_file_path (background s ! n))) \<longrightarrow>
               jobs (run_task n s) job_id =
                 Some (apply_action j
                         (run_transcription (task_env (background s ! n))
                            (task_file_path (background s ! n)) ! task_pc (background s ! n))))
           \<and> fst (get_transcription_status job_id s) =
               Inr \<lparr>tj_job_id = job_id, tj_status = status j, tj_progress = progress j,
                     tj_message = message j,
                     tj_transcript = (case transcript j of
                                        None \<Rightarrow> None
                                      | Some [] \<Rightarrow> None
                                      | Some (l # ls) \<Rightarrow> Some (l # ls)),
                     tj_error = error j\<rparr>"
proof -
  have inv: "server_inv uuid4 s" unfolding assms(2) using assms(1) by (rule server_inv_reachable)
  obtain n where n: "n < length (background s)" "task_job_id (background s ! n) = job_id"
    and j: "j = job_after (task_env (background s ! n)) (task_file_path (background s ! n))
                  (task_pc (background s ! n))"
    using job_has_task[OF inv assms(3)] by blast
  have dist: "distinct (map task_job_id (background s))" using inv by (simp add: server_inv_def)
  have uniq: "m = n" if "m < length (background s)" "task_job_id (background s ! m) = job_id" for m
    using dist that n by (auto simp: distinct_conv_nth)
  have others: "jobs (run_task m s) job_id = Some j" if "m \<noteq> n" for m
  proof -
    have "\<not> (m < length (background s) \<and> task_job_id (background s ! m) = job_id)"
      using uniq that by blast
    then show ?thesis using run_task_other_job[of m s job_id] assms(3) by simp
  qed
  have own: "jobs (run_task n s) job_id =
      Some (apply_action j
              (run_transcription (task_env (background s ! n))
                 (task_file_path (background s ! n)) ! task_pc (background s ! n)))"
    if "task_pc (background s ! n) <
          length (run_transcription (task_env (background s ! n)) (task_file_path (background s ! n)))"
    using run_task_own_job[OF n(1) that] assms(3) n(2) by simp
  have poll: "fst (get_transcription_status job_id s) =
               Inr \<lparr>tj_job_id = job_id, tj_status = status j, tj_progress = progress j,
                     tj_message = message j,
                     tj_transcript = (case transcript j of
                                        None \<Rightarrow> None
                                      | Some [] \<Rightarrow> None
                                      | Some (l # ls) \<Rightarrow> Some (l # ls)),
                     tj_error = error j\<rparr>"
    using assms(3) by (simp add: get_transcription_status_def)
  show ?thesis
    using n j uniq others own poll by (intro exI[of _ n]) blast
qed

text \<open>
  The theorem at the state after a submission and the first statement of its run:
  the status is assigned, the progress and the message are not yet.
\<close>

theorem record_has_one_writer_witness:
  "inj uuid_demo
   \<and> jobs (serve uuid_demo [StartTranscription upload_mp3 Saved env_ok, RunTask 0] init) ''u''
     = Some \<lparr>status = Processing, progress = 0, message = ''Audio hochgeladen'',
             file_path = ''uploads/u_sitzung.mp3'', transcript = None, error = None\<rparr>
   \<and> fst (get_transcription_status ''u''
            (serve uuid_demo [StartTranscription upload_mp3 Saved env_ok, RunTask 0] init))
     = Inr \<lparr>tj_job_id = ''u'', tj_status = Processing, tj_progress = 0,
            tj_message = ''Audio hochgeladen'', tj_transcript = None, tj_error = None\<rparr>
   \<and> (\<exists>n. \<forall>m. m \<noteq> n \<longrightarrow>
         jobs (run_task m (serve uuid_demo [StartTranscription upload_mp3 Saved env_ok, RunTask 0] init))
           ''u''
         = Some \<lparr>status = Processing, progress = 0, message = ''Audio hochgeladen'',
                 file_path = ''uploads/u_sitzung.mp3'', transcript = None, error = None\<rparr>)"
proof -
  let ?s = "serve uuid_demo [StartTranscription upload_mp3 Saved env_ok, RunTask 0] init"
  let ?j = "\<lparr>status = Processing, progress = 0, message = ''Audio hochgeladen'',
             file_path = ''uploads/u_sitzung.mp3'', transcript = None, error = None\<rparr>"
  note w = record_has_one_writer[OF inj_uuid_demo refl first_assignment_state]
  have a: "fst (get_transcription_status ''u'' ?s)
     = Inr \<lparr>tj_job_id = ''u'', tj_status = Processing, tj_progress = 0,
            tj_message = ''Audio hochgeladen'', tj_transcript = None, tj_error = None\<rparr>"
    using w by auto
  have b: "\<exists>n. \<forall>m. m \<noteq> n \<longrightarrow> jobs (run_task m ?s) ''u'' = Some ?j"
    using w by blast
  show ?thesis using inj_uuid_demo first_assignment_state a b by simp
qed

text \<open>
  Claim C7 as stated fails between the assignments of lines 179 and 180 of main.py:
  a poll served there is answered with the status of the processing state and the
  progress and message of the pending one, a record that is none of those between
  two updates of the run.
\<close>

theorem poll_between_two_assignments:
  "fst (get_transcription_status ''u''
          (serve uuid_demo [StartTranscription upload_mp3 Saved env_ok, RunTask 0] init))
     = Inr \<lparr>tj_job_id = ''u'', tj_status = Processing, tj_progress = 0,
            tj_message = ''Audio hochgeladen'', tj_transcript = None, tj_error = None\<rparr>
   \<and> \<lparr>status = Processing, progress = 0, message = ''Audio hochgeladen'',
       file_path = ''uploads/u_sitzung.mp3'', transcript = None, error = None\<rparr>
       \<notin> set (whole_states env_ok ''uploads/u_sitzung.mp3'')
   \<and> concat (updates env_ok ''uploads/u_sitzung.mp3'')
       = run_transcription env_ok ''uploads/u_sitzung.mp3''"
proof -
  have "fst (get_transcription_status ''u''
          (serve uuid_demo [StartTranscription upload_mp3 Saved env_ok, RunTask 0] init))
     = Inr \<lparr>tj_job_id = ''u'', tj_status = Processing, tj_progress = 0,
            tj_message = ''Audio hochgeladen'', tj_transcript = None, tj_error = None\<rparr>"
    by code_simp
  moreover have "\<lparr>status = Processing, progress = 0, message = ''Audio hochgeladen'',
       file_path = ''uploads/u_sitzung.mp3'', transcript = None, error = None\<rparr>
       \<notin> set (whole_states env_ok ''uploads/u_sitzung.mp3'')"
    by code_simp
  ultimately show ?thesis by (simp add: updates_concat)
qed

text \<open>
  Claim C10. The response to a poll is the same for two servers whose records of
  the job agree on status, progress, message, transcript and error, whatever their
  paths of the uploaded file.
\<close>

theorem poll_independent_of_file_path:
  assumes "jobs s1 job_id = Some j1" and "jobs s2 job_id = Some j2"
    and "status j1 = status j2" and "progress j1 = progress j2"
    and "message j1 = message j2" and "transcript j1 = transcript j2"
    and "error j1 = error j2"
  shows "fst (get_transcription_status job_id s1) = fst (get_transcription_status job_id s2)"
  using assms by (simp add: get_transcription_status_def)

text \<open>The theorem at two records of a finished job that differ in the path only.\<close>

theorem poll_independent_of_file_path_witness:
  "fst (get_transcription_status ''u''
          (init\<lparr>jobs := [''u'' \<mapsto> job_after env_ok ''uploads/u_a.mp3'' 31]\<rparr>))
   = fst (get_transcription_status ''u''
          (init\<lparr>jobs := [''u'' \<mapsto> job_after env_ok ''/tmp/other.wav'' 31]\<rparr>))
   \<and> file_path (job_after env_ok ''uploads/u_a.mp3'' 31)
       \<noteq> file_path (job_after env_ok ''/tmp/other.wav'' 31)"
proof -
  have fp: "\<And>p. job_after env_ok p 31 =
      \<lparr>status = Completed, progress = 100, message = ''Transkription abgeschlossen'',
       file_path = p,
       transcript = Some [\<lparr>speaker = ''SPEAKER_00'', text' = ''Guten Tag.''\<rparr>],
       error = None\<rparr>"
    by code_simp
  show ?thesis
    using poll_independent_of_file_path
      [of "init\<lparr>jobs := [''u'' \<mapsto> job_after env_ok ''uploads/u_a.mp3'' 31]\<rparr>" "''u''"
          "job_after env_ok ''uploads/u_a.mp3'' 31"
          "init\<lparr>jobs := [''u'' \<mapsto> job_after env_ok ''/tmp/other.wav'' 31]\<rparr>"
          "job_after env_ok ''/tmp/other.wav'' 31"]
    by (simp add: fp)
qed

end
